theory Spec2Isabelle
  imports Main "HOL-Library.Word"
begin

section \<open>Data model\<close>

type_synonym u32 = "32 word"

text \<open>
  A Go panic (or a loop that does not come back) is a value of type \<open>fault\<close>; every
  operation that can panic returns \<open>fault + 'a\<close>.
  \<^item> \<open>InvalidRequest\<close>: \<^verbatim>\<open>panic("invalid request. to must > from")\<close> in \<open>Get\<close>;
  \<^item> \<open>IndexOutOfRange\<close>: a slice index outside \<open>0 .. len - 1\<close>;
  \<^item> \<open>NilChunk\<close>: a method call through a nil \<^verbatim>\<open>*Chunk\<close>;
  \<^item> \<open>DivideByZero\<close>: \<^verbatim>\<open>%\<close> or \<^verbatim>\<open>/\<close> by a zero \<open>ChunkSpan\<close>;
  \<^item> \<open>PushFailed\<close>: the \<^verbatim>\<open>panic("FATAL ERROR: ...")\<close> after a failed push into a new chunk;
  \<^item> \<open>NoReturn\<close>: a loop used up its fuel (the call does not return).
\<close>

datatype fault = InvalidRequest | IndexOutOfRange | NilChunk | DivideByZero | PushFailed | NoReturn

text \<open>
  Modelled from the spec: the type \<^verbatim>\<open>Chunk\<close> and its methods \<^verbatim>\<open>NewChunk\<close>, \<^verbatim>\<open>Push\<close>,
  \<^verbatim>\<open>Finish\<close> and \<^verbatim>\<open>Iter\<close> are not part of the sources. The fields are the ones the
  sources read and write (\<open>T0\<close>, \<open>LastTs\<close>, \<open>NumPoints\<close>, \<open>Saved\<close>, \<open>Saving\<close>,
  \<open>LastWrite\<close>); \<open>Points\<close> stands for the compressed series (what \<^verbatim>\<open>Iter()\<close> walks
  over) and \<open>Finished\<close> records that \<^verbatim>\<open>Finish()\<close> was called. The sample value is a
  \<^verbatim>\<open>float64\<close> that is only stored and handed on, never computed with: the type \<open>'v\<close>.
\<close>

record 'v Chunk =
  T0 :: u32
  LastTs :: u32
  NumPoints :: u32
  Saved :: bool
  Saving :: bool
  LastWrite :: u32
  Points :: "(u32 \<times> 'v) list"
  Finished :: bool

text \<open>
  What a call reads from outside the \<^verbatim>\<open>AggMetric\<close>: the role oracle
  \<^verbatim>\<open>clusterStatus.IsPrimary()\<close>, the wall clock \<^verbatim>\<open>time.Now()\<close>, and the verdict of
  \<^verbatim>\<open>Chunk.Push\<close> (the sources only test its error for nil; when a push fails is not
  fixed by the spec, so it is a parameter).
\<close>

record 'v Env =
  IsPrimary :: bool
  Now :: u32
  PushErr :: "'v Chunk \<Rightarrow> u32 \<Rightarrow> 'v \<Rightarrow> bool"

text \<open>
  Modelled from the spec: \<^verbatim>\<open>NewChunk(t0)\<close> is missing from the sources. Spec:
  "saving and saved are both cleared at construction"; no point has been accepted.
\<close>

definition NewChunk :: "u32 \<Rightarrow> 'v Chunk" where
  "NewChunk t0 = \<lparr>T0 = t0, LastTs = 0, NumPoints = 0, Saved = False, Saving = False,
                  LastWrite = 0, Points = [], Finished = False\<rparr>"

text \<open>
  Modelled from the spec: \<^verbatim>\<open>Chunk.Push(ts, val)\<close> is missing from the sources. Spec:
  \<open>last_ts\<close> is the "timestamp of most recent accepted point", \<open>num_points\<close> the "count of
  accepted points", \<open>last_write\<close> the "wall-clock seconds of most recent accepted push or
  of finish". A rejected push (\<open>None\<close>) leaves the chunk as it was.
\<close>

definition Push :: "'v Env \<Rightarrow> 'v Chunk \<Rightarrow> u32 \<Rightarrow> 'v \<Rightarrow> 'v Chunk option" where
  "Push env c ts val =
     (if PushErr env c ts val then None
      else Some (c\<lparr>Points := Points c @ [(ts, val)], LastTs := ts,
                   NumPoints := NumPoints c + 1, LastWrite := Now env\<rparr>))"

text \<open>
  Modelled from the spec: \<^verbatim>\<open>Chunk.Finish()\<close> is missing from the sources. Spec:
  \<open>last_write\<close> is the wall clock "of most recent accepted push or of finish".
\<close>

definition Finish :: "'v Env \<Rightarrow> 'v Chunk \<Rightarrow> 'v Chunk" where
  "Finish env c = c\<lparr>Finished := True, LastWrite := Now env\<rparr>"

text \<open>
  Modelled from the spec: \<^verbatim>\<open>NewIter(chunk.Iter(), "mem %s", chunk)\<close>; \<^verbatim>\<open>Iter\<close> and
  \<^verbatim>\<open>NewIter\<close> are missing from the sources. An iterator is the sequence of points of
  the chunk together with the chunk it was taken from.
\<close>

datatype 'v Iter = NewIter (iterPoints: "(u32 \<times> 'v) list") (iterChunk: "'v Chunk")

definition chunkIter :: "'v Chunk \<Rightarrow> 'v Iter" where
  "chunkIter c = NewIter (Points c) c"

text \<open>
  \<^verbatim>\<open>ChunkWriteRequest{key, chunk, ttl, timestamp}\<close>. The fields carry the prefix \<open>wr_\<close>;
  \<open>wr_chunk\<close> holds the chunk as it is at the moment the request is passed to
  \<^verbatim>\<open>store.Add\<close>.
\<close>

record 'v ChunkWriteRequest =
  wr_key :: string
  wr_chunk :: "'v Chunk"
  wr_ttl :: u32
  wr_timestamp :: u32

text \<open>
  \<^verbatim>\<open>type AggMetric struct\<close>. The field \<open>store\<close> is the sequence of requests handed to
  \<^verbatim>\<open>store.Add\<close> so far, oldest first. Every chunk of \<open>Chunks\<close> is a distinct non-nil
  \<^verbatim>\<open>*Chunk\<close> (the sources only ever store the result of \<^verbatim>\<open>NewChunk\<close>), so the slice
  of pointers is a list of chunks. Modelled from the spec: \<^verbatim>\<open>Aggregator\<close> is missing
  from the sources; an aggregator is represented by the samples passed to its \<^verbatim>\<open>Add\<close>.
\<close>

record 'v AggMetric =
  store :: "'v ChunkWriteRequest list"
  Key :: string
  CurrentChunkPos :: int
  NumChunks :: u32
  ChunkSpan :: u32
  Chunks :: "'v Chunk list"
  aggregators :: "(u32 \<times> 'v) list list"
  firstChunkT0 :: u32
  ttl :: u32

text \<open>The package-level counters \<^verbatim>\<open>chunkCreate\<close>, \<^verbatim>\<open>chunkClear\<close> and the channel \<^verbatim>\<open>totalPoints\<close>.\<close>

record Counters =
  chunkCreate :: nat
  chunkClear :: nat
  totalPoints :: "int list"

definition MaxInt32 :: u32 where
  "MaxInt32 = 2147483647"

definition numChunksOf :: "'v AggMetric \<Rightarrow> int" where
  "numChunksOf a = int (length (Chunks a))"

section \<open>Operations\<close>

text \<open>\<^verbatim>\<open>NewAggMetric\<close> (without aggregation settings: \<open>aggs\<close> is the number of aggregators).\<close>

definition NewAggMetric :: "string \<Rightarrow> u32 \<Rightarrow> u32 \<Rightarrow> u32 \<Rightarrow> nat \<Rightarrow> 'v AggMetric" where
  "NewAggMetric k chunkSpan numChunks t aggs =
     \<lparr>store = [], Key = k, CurrentChunkPos = 0, NumChunks = numChunks, ChunkSpan = chunkSpan,
      Chunks = [], aggregators = replicate aggs [], firstChunkT0 = 0, ttl = t\<rparr>"

definition getChunk :: "'v AggMetric \<Rightarrow> int \<Rightarrow> 'v Chunk option" where
  "getChunk a pos =
     (if pos < 0 then None
      else if pos \<ge> numChunksOf a then None
      else Some (Chunks a ! nat pos))"

text \<open>\<^verbatim>\<open>pos++; if pos >= n { pos = 0 }\<close> and \<^verbatim>\<open>pos--; if pos < 0 { pos += n }\<close>.\<close>

definition incWrap :: "int \<Rightarrow> int \<Rightarrow> int" where
  "incWrap n pos = (if pos + 1 \<ge> n then 0 else pos + 1)"

definition decWrap :: "int \<Rightarrow> int \<Rightarrow> int" where
  "decWrap n pos = (if pos - 1 < 0 then pos - 1 + n else pos - 1)"

subsection \<open>GrowNumChunks\<close>

text \<open>The copy loop of \<^verbatim>\<open>GrowNumChunks\<close>: \<open>n\<close> iterations are left, \<open>pos\<close> is read next.\<close>

fun orderChunks :: "'v Chunk list \<Rightarrow> nat \<Rightarrow> int \<Rightarrow> fault + 'v Chunk list" where
  "orderChunks cs 0 pos = Inr []"
| "orderChunks cs (Suc n) pos =
     (if pos < 0 \<or> pos \<ge> int (length cs) then Inl IndexOutOfRange
      else (case orderChunks cs n (incWrap (int (length cs)) pos) of
              Inl e \<Rightarrow> Inl e
            | Inr rest \<Rightarrow> Inr (cs ! nat pos # rest)))"

definition GrowNumChunks :: "'v AggMetric \<Rightarrow> u32 \<Rightarrow> fault + 'v AggMetric" where
  "GrowNumChunks a numChunks =
     (let a1 = a\<lparr>NumChunks := numChunks\<rparr> in
      if (of_nat (length (Chunks a1)) :: u32) < NumChunks a1 then Inr a1
      else
        (case orderChunks (Chunks a1) (length (Chunks a1))
                (decWrap (numChunksOf a1) (CurrentChunkPos a1)) of
           Inl e \<Rightarrow> Inl e
         | Inr orderdChunks \<Rightarrow>
             Inr (a1\<lparr>Chunks := orderdChunks,
                     CurrentChunkPos := int (length orderdChunks) - 1\<rparr>)))"

subsection \<open>getChunkByT0 and SyncChunkSaveState\<close>

text \<open>
  The two scans of \<^verbatim>\<open>getChunkByT0\<close>. The result is the position of the chunk found
  (the pointer the Go code returns), or \<open>None\<close>.
\<close>

fun scanNewer :: "nat \<Rightarrow> 'v Chunk list \<Rightarrow> u32 \<Rightarrow> u32 \<Rightarrow> int \<Rightarrow> fault + int option" where
  "scanNewer 0 cs currentT0 ts guess = Inl NoReturn"
| "scanNewer (Suc n) cs currentT0 ts guess =
     (if T0 (cs ! nat guess) < currentT0 then
        (let guess' = incWrap (int (length cs)) guess in
         if T0 (cs ! nat guess') = ts then Inr (Some guess')
         else scanNewer n cs currentT0 ts guess')
      else Inr None)"

fun scanOlder :: "nat \<Rightarrow> 'v Chunk list \<Rightarrow> u32 \<Rightarrow> u32 \<Rightarrow> u32 \<Rightarrow> int \<Rightarrow> fault + int option" where
  "scanOlder 0 cs oldestT0 currentT0 ts guess = Inl NoReturn"
| "scanOlder (Suc n) cs oldestT0 currentT0 ts guess =
     (if T0 (cs ! nat guess) \<ge> oldestT0 \<and> T0 (cs ! nat guess) < currentT0 then
        (let guess' = decWrap (int (length cs)) guess in
         if T0 (cs ! nat guess') = ts then Inr (Some guess')
         else scanOlder n cs oldestT0 currentT0 ts guess')
      else Inr None)"

definition getChunkByT0 :: "'v AggMetric \<Rightarrow> u32 \<Rightarrow> fault + int option" where
  "getChunkByT0 a ts =
     (if Chunks a = [] then Inr None
      else if CurrentChunkPos a < 0 \<or> CurrentChunkPos a \<ge> numChunksOf a then Inl IndexOutOfRange
      else
        let currentT0 = T0 (Chunks a ! nat (CurrentChunkPos a)) in
        if ts = currentT0 then Inr (Some (CurrentChunkPos a))
        else if ts > currentT0 then Inr None
        else if length (Chunks a) = 1 then Inr None
        else if ChunkSpan a = 0 then Inl DivideByZero
        else
          let chunksAgo = uint ((currentT0 - ts) div ChunkSpan a);
              numChunks = numChunksOf a;
              oldestPos = incWrap numChunks (CurrentChunkPos a);
              guess = (if chunksAgo \<ge> numChunks - 1 then oldestPos
                       else (let g = CurrentChunkPos a - chunksAgo in
                             if g < 0 then g + numChunks else g))
          in
            if T0 (Chunks a ! nat guess) = ts then Inr (Some guess)
            else if ts > T0 (Chunks a ! nat guess) then
              scanNewer (length (Chunks a)) (Chunks a) currentT0 ts guess
            else
              scanOlder (length (Chunks a)) (Chunks a)
                (T0 (Chunks a ! nat oldestPos)) currentT0 ts guess)"

definition SyncChunkSaveState :: "'v AggMetric \<Rightarrow> u32 \<Rightarrow> fault + 'v AggMetric" where
  "SyncChunkSaveState a ts =
     (case getChunkByT0 a ts of
        Inl e \<Rightarrow> Inl e
      | Inr None \<Rightarrow> Inr a
      | Inr (Some p) \<Rightarrow>
          Inr (a\<lparr>Chunks := (Chunks a)[nat p := (Chunks a ! nat p)\<lparr>Saved := True\<rparr>]\<rparr>))"

subsection \<open>Get\<close>

text \<open>Outcome of one of the two seek loops of \<^verbatim>\<open>Get\<close>.\<close>

datatype 'a seek = OutOfFuel | NilHit | Stopped 'a

text \<open>\<^verbatim>\<open>for from >= oldestChunk.T0+a.ChunkSpan { ... }\<close>\<close>

fun seekOldest :: "nat \<Rightarrow> 'v AggMetric \<Rightarrow> u32 \<Rightarrow> int \<Rightarrow> 'v Chunk \<Rightarrow> (int \<times> 'v Chunk) seek" where
  "seekOldest 0 a from oldestPos oldestChunk = OutOfFuel"
| "seekOldest (Suc n) a from oldestPos oldestChunk =
     (if from \<ge> T0 oldestChunk + ChunkSpan a then
        (let oldestPos' = incWrap (numChunksOf a) oldestPos in
         (case getChunk a oldestPos' of
            None \<Rightarrow> NilHit
          | Some c \<Rightarrow> seekOldest n a from oldestPos' c))
      else Stopped (oldestPos, oldestChunk))"

text \<open>\<^verbatim>\<open>for to <= newestChunk.T0 { ... }\<close>\<close>

fun seekNewest :: "nat \<Rightarrow> 'v AggMetric \<Rightarrow> u32 \<Rightarrow> int \<Rightarrow> 'v Chunk \<Rightarrow> (int \<times> 'v Chunk) seek" where
  "seekNewest 0 a to newestPos newestChunk = OutOfFuel"
| "seekNewest (Suc n) a to newestPos newestChunk =
     (if to \<le> T0 newestChunk then
        (let newestPos' = decWrap (numChunksOf a) newestPos in
         (case getChunk a newestPos' of
            None \<Rightarrow> NilHit
          | Some c \<Rightarrow> seekNewest n a to newestPos' c))
      else Stopped (newestPos, newestChunk))"

text \<open>
  \<^verbatim>\<open>for oldestPos != newestPos { ... }\<close> and the final append. The wrap is at
  \<open>NumChunks\<close>, not at \<open>len(Chunks)\<close>, as in the source.
\<close>

fun collectIters :: "nat \<Rightarrow> 'v AggMetric \<Rightarrow> int \<Rightarrow> int \<Rightarrow> fault + 'v Iter list" where
  "collectIters 0 a oldestPos newestPos = Inl NoReturn"
| "collectIters (Suc n) a oldestPos newestPos =
     (case getChunk a oldestPos of
        None \<Rightarrow> Inl NilChunk
      | Some c \<Rightarrow>
          if oldestPos \<noteq> newestPos then
            (case collectIters n a (incWrap (uint (NumChunks a)) oldestPos) newestPos of
               Inl e \<Rightarrow> Inl e
             | Inr iters \<Rightarrow> Inr (chunkIter c # iters))
          else Inr [chunkIter c])"

text \<open>Position and chunk the scan for \<open>from\<close> starts at: the oldest slot, or the one after
  it when the node is not primary and the oldest chunk is the first chunk ever created.\<close>

definition oldestServed :: "'v Env \<Rightarrow> 'v AggMetric \<Rightarrow> (int \<times> 'v Chunk option) option" where
  "oldestServed env a =
     (let oldestPos = incWrap (numChunksOf a) (CurrentChunkPos a) in
      (case getChunk a oldestPos of
         None \<Rightarrow> None
       | Some oldestChunk \<Rightarrow>
           if \<not> IsPrimary env \<and> T0 oldestChunk = firstChunkT0 a then
             (let oldestPos' = incWrap (numChunksOf a) oldestPos in
              Some (oldestPos', getChunk a oldestPos'))
           else Some (oldestPos, Some oldestChunk)))"

definition Get :: "'v Env \<Rightarrow> 'v AggMetric \<Rightarrow> u32 \<Rightarrow> u32 \<Rightarrow> fault + (u32 \<times> 'v Iter list)" where
  "Get env a from to =
     (if from \<ge> to then Inl InvalidRequest
      else
        (case getChunk a (CurrentChunkPos a) of
           None \<Rightarrow> Inr (MaxInt32, [])
         | Some newestChunk \<Rightarrow>
             if from \<ge> T0 newestChunk + ChunkSpan a then Inr (MaxInt32, [])
             else
               (case oldestServed env a of
                  None \<Rightarrow> Inr (MaxInt32, [])
                | Some (oldestPos, None) \<Rightarrow> Inr (MaxInt32, [])
                | Some (oldestPos, Some oldestChunk) \<Rightarrow>
                    if to \<le> T0 oldestChunk then Inr (T0 oldestChunk, [])
                    else
                      (case seekOldest (length (Chunks a)) a from oldestPos oldestChunk of
                         OutOfFuel \<Rightarrow> Inl NoReturn
                       | NilHit \<Rightarrow> Inr (to, [])
                       | Stopped (oldestPos', oldestChunk') \<Rightarrow>
                           (case seekNewest (length (Chunks a)) a to (CurrentChunkPos a)
                                   newestChunk of
                              OutOfFuel \<Rightarrow> Inl NoReturn
                            | NilHit \<Rightarrow> Inr (to, [])
                            | Stopped (newestPos, newestChunk') \<Rightarrow>
                                (case collectIters (length (Chunks a) + unat (NumChunks a) + 1)
                                        a oldestPos' newestPos of
                                   Inl e \<Rightarrow> Inl e
                                 | Inr iters \<Rightarrow> Inr (T0 oldestChunk', iters)))))))"

subsection \<open>persist\<close>

definition needsSaving :: "'v Chunk \<Rightarrow> 'v Chunk \<Rightarrow> bool" where
  "needsSaving chunk previousChunk \<longleftrightarrow>
     T0 previousChunk < T0 chunk \<and> \<not> Saved previousChunk \<and> \<not> Saving previousChunk"

text \<open>
  The catch-up loop of \<^verbatim>\<open>persist\<close>: the positions of the previous chunks appended to
  \<open>pending\<close>, in the order they are appended. \<open>None\<close>: out of fuel.
\<close>

fun persistWalk :: "nat \<Rightarrow> 'v Chunk list \<Rightarrow> 'v Chunk \<Rightarrow> int \<Rightarrow> int list option" where
  "persistWalk 0 cs chunk previousPos = None"
| "persistWalk (Suc n) cs chunk previousPos =
     (if needsSaving chunk (cs ! nat previousPos) then
        (case persistWalk n cs chunk (decWrap (int (length cs)) previousPos) of
           None \<Rightarrow> None
         | Some older \<Rightarrow> Some (previousPos # older))
      else Some [])"

text \<open>\<^verbatim>\<open>a.store.Add(pending[pendingChunk]); pending[pendingChunk].chunk.Saving = true\<close>\<close>

definition submitOne :: "'v Env \<Rightarrow> 'v AggMetric \<Rightarrow> int \<Rightarrow> 'v AggMetric" where
  "submitOne env a p =
     a\<lparr>store := store a @ [\<lparr>wr_key = Key a, wr_chunk = Chunks a ! nat p, wr_ttl = ttl a,
                             wr_timestamp = Now env\<rparr>],
       Chunks := (Chunks a)[nat p := (Chunks a ! nat p)\<lparr>Saving := True\<rparr>]\<rparr>"

fun submitAll :: "'v Env \<Rightarrow> 'v AggMetric \<Rightarrow> int list \<Rightarrow> 'v AggMetric" where
  "submitAll env a [] = a"
| "submitAll env a (p # ps) = submitAll env (submitOne env a p) ps"

definition persist :: "'v Env \<Rightarrow> 'v AggMetric \<Rightarrow> int \<Rightarrow> fault + 'v AggMetric" where
  "persist env a pos =
     (if pos < 0 \<or> pos \<ge> numChunksOf a then Inl IndexOutOfRange
      else
        let a1 = a\<lparr>Chunks := (Chunks a)[nat pos := Finish env (Chunks a ! nat pos)]\<rparr>;
            chunk = Chunks a1 ! nat pos
        in
          if \<not> IsPrimary env then Inr a1
          else
            (case persistWalk (length (Chunks a1)) (Chunks a1) chunk
                    (decWrap (numChunksOf a1) pos) of
               None \<Rightarrow> Inl NoReturn
             | Some previous \<Rightarrow> Inr (submitAll env a1 (rev (pos # previous)))))"

subsection \<open>Add\<close>

definition addAggregators :: "'v AggMetric \<Rightarrow> u32 \<Rightarrow> 'v \<Rightarrow> 'v AggMetric" where
  "addAggregators a ts val = a\<lparr>aggregators := map (\<lambda>agg. agg @ [(ts, val)]) (aggregators a)\<rparr>"

text \<open>Push into the chunk at \<open>pos\<close>; \<open>None\<close> when the push returns an error.\<close>

definition pushAt :: "'v Env \<Rightarrow> 'v AggMetric \<Rightarrow> int \<Rightarrow> u32 \<Rightarrow> 'v \<Rightarrow> 'v AggMetric option" where
  "pushAt env a pos ts val =
     (case Push env (Chunks a ! nat pos) ts val of
        None \<Rightarrow> None
      | Some c \<Rightarrow> Some (a\<lparr>Chunks := (Chunks a)[nat pos := c]\<rparr>))"

definition Add :: "'v Env \<Rightarrow> 'v AggMetric \<Rightarrow> Counters \<Rightarrow> u32 \<Rightarrow> 'v \<Rightarrow> fault + ('v AggMetric \<times> Counters)" where
  "Add env a ctr ts val =
     (if ChunkSpan a = 0 then Inl DivideByZero
      else
        let t0 = ts - (ts mod ChunkSpan a) in
        (case getChunk a (CurrentChunkPos a) of
           None \<Rightarrow>
             (let ctr1 = ctr\<lparr>chunkCreate := chunkCreate ctr + 1\<rparr>;
                  a1 = a\<lparr>Chunks := Chunks a @ [NewChunk t0], firstChunkT0 := t0\<rparr>
              in (case pushAt env a1 0 ts val of
                    None \<Rightarrow> Inl PushFailed
                  | Some a2 \<Rightarrow> Inr (addAggregators a2 ts val, ctr1)))
         | Some currentChunk \<Rightarrow>
             if t0 = T0 currentChunk then
               (if Saved currentChunk then Inr (a, ctr)
                else (case pushAt env a (CurrentChunkPos a) ts val of
                        None \<Rightarrow> Inr (a, ctr)
                      | Some a1 \<Rightarrow> Inr (addAggregators a1 ts val, ctr)))
             else if t0 < T0 currentChunk then Inr (a, ctr)
             else
               (case persist env a (CurrentChunkPos a) of
                  Inl e \<Rightarrow> Inl e
                | Inr a1 \<Rightarrow>
                    let a2 = a1\<lparr>CurrentChunkPos :=
                                  incWrap (uint (NumChunks a1)) (CurrentChunkPos a1)\<rparr>;
                        ctr1 = ctr\<lparr>chunkCreate := chunkCreate ctr + 1\<rparr>
                    in
                      if numChunksOf a2 < uint (NumChunks a2) then
                        (let a3 = a2\<lparr>Chunks := Chunks a2 @ [NewChunk t0]\<rparr> in
                         (case pushAt env a3 (CurrentChunkPos a3) ts val of
                            None \<Rightarrow> Inl PushFailed
                          | Some a4 \<Rightarrow> Inr (addAggregators a4 ts val, ctr1)))
                      else
                        (let ctr2 = ctr1\<lparr>chunkClear := chunkClear ctr1 + 1,
                                         totalPoints := totalPoints ctr1 @
                                           [- uint (NumPoints (Chunks a2 ! nat (CurrentChunkPos a2)))]\<rparr>;
                             a3 = a2\<lparr>Chunks := (Chunks a2)[nat (CurrentChunkPos a2) := NewChunk t0]\<rparr>
                         in (case pushAt env a3 (CurrentChunkPos a3) ts val of
                               None \<Rightarrow> Inl PushFailed
                             | Some a4 \<Rightarrow> Inr (addAggregators a4 ts val, ctr2))))))"

subsection \<open>GC\<close>

definition GC :: "'v Env \<Rightarrow> 'v AggMetric \<Rightarrow> u32 \<Rightarrow> u32 \<Rightarrow> fault + (bool \<times> 'v AggMetric)" where
  "GC env a chunkMinTs metricMinTs =
     (case getChunk a (CurrentChunkPos a) of
        None \<Rightarrow> Inr (False, a)
      | Some currentChunk \<Rightarrow>
          if LastWrite currentChunk < chunkMinTs then
            (if Saved currentChunk \<and> LastWrite currentChunk < metricMinTs then Inr (True, a)
             else (case persist env a (CurrentChunkPos a) of
                     Inl e \<Rightarrow> Inl e
                   | Inr a1 \<Rightarrow> Inr (False, a1)))
          else Inr (False, a))"

section \<open>Notions used in the statements\<close>

text \<open>
  \<open>fwdDist n p q\<close>: how many times \<^verbatim>\<open>pos++\<close> (with wrap at \<open>n\<close>) leads from slot \<open>p\<close> to
  slot \<open>q\<close> of a ring of \<open>n\<close> slots.
\<close>

definition fwdDist :: "int \<Rightarrow> int \<Rightarrow> int \<Rightarrow> nat" where
  "fwdDist n p q = nat (if p \<le> q then q - p else q - p + n)"

text \<open>
  The order of the ring: every chunk but the current one has a smaller \<open>T0\<close> than the
  chunk in the next slot (with wrap), so that walking backward from the current chunk the
  \<open>T0\<close>s strictly decrease down to the oldest slot. (The spec's invariant asks for steps of
  exactly \<open>chunk_span\<close>; the code also creates gaps, and only the order is used here.)
\<close>

definition ringAscending :: "'v AggMetric \<Rightarrow> bool" where
  "ringAscending a \<longleftrightarrow>
     (\<forall>p\<in>{0..<length (Chunks a)}. int p \<noteq> CurrentChunkPos a \<longrightarrow>
        T0 (Chunks a ! p) < T0 (Chunks a ! nat (incWrap (numChunksOf a) (int p))))"

text \<open>The request \<^verbatim>\<open>&ChunkWriteRequest{key: a.Key, chunk: c, ttl: a.ttl, timestamp: time.Now()}\<close>.\<close>

definition writeRequest :: "'v Env \<Rightarrow> 'v AggMetric \<Rightarrow> 'v Chunk \<Rightarrow> 'v ChunkWriteRequest" where
  "writeRequest env a c = \<lparr>wr_key = Key a, wr_chunk = c, wr_ttl = ttl a, wr_timestamp = Now env\<rparr>"

text \<open>The chunk list with \<open>Saving\<close> set on the slots listed in \<open>ps\<close>.\<close>

definition markSaving :: "int list \<Rightarrow> 'v Chunk list \<Rightarrow> 'v Chunk list" where
  "markSaving ps cs = map (\<lambda>i. if int i \<in> set ps then (cs ! i)\<lparr>Saving := True\<rparr> else cs ! i) [0..<length cs]"

text \<open>The \<open>k\<close> slots \<open>p\<close>, \<open>p - 1\<close>, \<open>\<dots>\<close> met walking backward (with wrap at \<open>n\<close>) from \<open>p\<close>.\<close>

fun backFrom :: "int \<Rightarrow> nat \<Rightarrow> int \<Rightarrow> int list" where
  "backFrom n 0 p = []"
| "backFrom n (Suc k) p = p # backFrom n k (decWrap n p)"

text \<open>\<open>CurrentChunkPos\<close> is the index of a chunk.\<close>

definition currentInRange :: "'v AggMetric \<Rightarrow> bool" where
  "currentInRange a \<longleftrightarrow> 0 \<le> CurrentChunkPos a \<and> CurrentChunkPos a < numChunksOf a"

text \<open>
  The slots are in bounds: the buffer is empty with \<open>CurrentChunkPos = 0\<close> (as
  \<^verbatim>\<open>NewAggMetric\<close> leaves it), or \<open>CurrentChunkPos\<close> is the index of a chunk; and, when the
  cap \<open>NumChunks\<close> is at least 1, the number of chunks does not exceed it.
\<close>

definition slotsOK :: "'v AggMetric \<Rightarrow> bool" where
  "slotsOK a \<longleftrightarrow>
     ((Chunks a = [] \<and> CurrentChunkPos a = 0)
        \<or> (0 \<le> CurrentChunkPos a \<and> CurrentChunkPos a < numChunksOf a))
     \<and> (1 \<le> uint (NumChunks a) \<longrightarrow> numChunksOf a \<le> uint (NumChunks a))"

text \<open>One call of a public operation that returns, with any arguments and environment.\<close>

inductive step :: "'v AggMetric \<Rightarrow> 'v AggMetric \<Rightarrow> bool" where
  step_Add: "Add env a ctr ts val = Inr (a', ctr') \<Longrightarrow> step a a'"
| step_GC: "GC env a chunkMinTs metricMinTs = Inr (b, a') \<Longrightarrow> step a a'"
| step_Sync: "SyncChunkSaveState a ts = Inr a' \<Longrightarrow> step a a'"

text \<open>The chunk after a push that returned no error.\<close>

definition pushed :: "'v Env \<Rightarrow> 'v Chunk \<Rightarrow> u32 \<Rightarrow> 'v \<Rightarrow> 'v Chunk" where
  "pushed env c ts val = c\<lparr>Points := Points c @ [(ts, val)], LastTs := ts,
                            NumPoints := NumPoints c + 1, LastWrite := Now env\<rparr>"

text \<open>The first guess of \<open>getChunkByT0\<close>.\<close>

definition guessPos :: "'v AggMetric \<Rightarrow> u32 \<Rightarrow> int" where
  "guessPos a ts =
     (let chunksAgo = uint ((T0 (Chunks a ! nat (CurrentChunkPos a)) - ts) div ChunkSpan a) in
      if chunksAgo \<ge> numChunksOf a - 1 then incWrap (numChunksOf a) (CurrentChunkPos a)
      else (let g = CurrentChunkPos a - chunksAgo in if g < 0 then g + numChunksOf a else g))"



section \<open>Example states\<close>

text \<open>Concrete environments, chunks and buffers (sample values are integers here).\<close>

definition primaryEnv :: "u32 \<Rightarrow> int Env" where
  "primaryEnv now = \<lparr>IsPrimary = True, Now = now, PushErr = (\<lambda>c ts v. False)\<rparr>"

definition secondaryEnv :: "u32 \<Rightarrow> int Env" where
  "secondaryEnv now = \<lparr>IsPrimary = False, Now = now, PushErr = (\<lambda>c ts v. False)\<rparr>"

definition noCounts :: Counters where
  "noCounts = \<lparr>chunkCreate = 0, chunkClear = 0, totalPoints = []\<rparr>"

text \<open>A chunk holding the single point \<open>(ts, v)\<close>, written at wall-clock time \<open>w\<close>.\<close>

definition onePoint :: "u32 \<Rightarrow> u32 \<Rightarrow> int \<Rightarrow> u32 \<Rightarrow> int Chunk" where
  "onePoint t0 ts v w = \<lparr>T0 = t0, LastTs = ts, NumPoints = 1, Saved = False, Saving = False,
                         LastWrite = w, Points = [(ts, v)], Finished = False\<rparr>"

text \<open>The same chunk after \<^verbatim>\<open>persist\<close> on a primary: finished and handed to the store.\<close>

definition sentChunk :: "u32 \<Rightarrow> u32 \<Rightarrow> int \<Rightarrow> u32 \<Rightarrow> int Chunk" where
  "sentChunk t0 ts v w = (onePoint t0 ts v w)\<lparr>Saving := True, Finished := True\<rparr>"

text \<open>Scenario 6 of the spec: \<open>chunk_span = 60\<close>, \<open>num_chunks = 3\<close>, one sample at \<open>ts = 100\<close>.\<close>

definition oneSample :: "int AggMetric" where
  "oneSample = \<lparr>store = [], Key = ''k'', CurrentChunkPos = 0, NumChunks = 3, ChunkSpan = 60,
                Chunks = [onePoint 60 100 1 1000], aggregators = [], firstChunkT0 = 60, ttl = 0\<rparr>"

text \<open>Scenario 7 of the spec: the wrapped ring \<open>[t0=180, t0=60, t0=120]\<close>, \<open>current_pos = 0\<close>.\<close>

definition wrapped3 :: "int AggMetric" where
  "wrapped3 = \<lparr>store = [], Key = ''k'', CurrentChunkPos = 0, NumChunks = 3, ChunkSpan = 60,
               Chunks = [onePoint 180 190 3 1000, sentChunk 60 70 1 1000, sentChunk 120 130 2 1000],
               aggregators = [], firstChunkT0 = 0, ttl = 0\<rparr>"

text \<open>What \<open>Add\<close> at \<open>ts = 240\<close> (wall clock 2000) makes of \<open>wrapped3\<close> with the cap raised to 5.\<close>

definition wrapped3_grown_added :: "int AggMetric" where
  "wrapped3_grown_added =
     \<lparr>store = [\<lparr>wr_key = ''k'', wr_chunk = (onePoint 180 190 3 2000)\<lparr>Finished := True\<rparr>,
               wr_ttl = 0, wr_timestamp = 2000\<rparr>],
      Key = ''k'', CurrentChunkPos = 1, NumChunks = 5, ChunkSpan = 60,
      Chunks = [sentChunk 180 190 3 2000,
                (sentChunk 60 70 1 2000)\<lparr>Points := [(70, 1), (240, 4)], LastTs := 240,
                                           NumPoints := 2\<rparr>,
                sentChunk 120 130 2 1000,
                NewChunk 240],
      aggregators = [], firstChunkT0 = 0, ttl = 0\<rparr>"

text \<open>A finished chunk that was never handed to the store (finished on a secondary).\<close>

definition finishedChunk :: "u32 \<Rightarrow> u32 \<Rightarrow> int \<Rightarrow> u32 \<Rightarrow> int Chunk" where
  "finishedChunk t0 ts v w = (onePoint t0 ts v w)\<lparr>Finished := True\<rparr>"

text \<open>Three chunks, none of them saved or being saved; the current one is in slot 2.\<close>

definition unsaved3 :: "int AggMetric" where
  "unsaved3 = \<lparr>store = [], Key = ''k'', CurrentChunkPos = 2, NumChunks = 3, ChunkSpan = 60,
               Chunks = [finishedChunk 60 70 1 1000, finishedChunk 120 130 2 1000,
                         onePoint 180 190 3 1000],
               aggregators = [], firstChunkT0 = 60, ttl = 0\<rparr>"

text \<open>\<open>unsaved3\<close> after \<open>persist\<close> of slot 2 on a primary at wall-clock time 2000.\<close>

definition unsaved3_persisted :: "int AggMetric" where
  "unsaved3_persisted =
     unsaved3\<lparr>store := [writeRequest (primaryEnv 2000) unsaved3 (finishedChunk 60 70 1 1000),
                         writeRequest (primaryEnv 2000) unsaved3 (finishedChunk 120 130 2 1000),
                         writeRequest (primaryEnv 2000) unsaved3 (finishedChunk 180 190 3 2000)],
               Chunks := [sentChunk 60 70 1 1000, sentChunk 120 130 2 1000, sentChunk 180 190 3 2000]\<rparr>"

text \<open>\<open>oneSample\<close> after \<open>GC\<close> has persisted its chunk at wall-clock time 2000, and after a
  second \<open>GC\<close> has persisted it again at 3000.\<close>

definition oneSample_persisted :: "int AggMetric" where
  "oneSample_persisted =
     oneSample\<lparr>store := [writeRequest (primaryEnv 2000) oneSample (finishedChunk 60 100 1 2000)],
                Chunks := [sentChunk 60 100 1 2000]\<rparr>"

definition oneSample_persisted_twice :: "int AggMetric" where
  "oneSample_persisted_twice =
     oneSample\<lparr>store := [writeRequest (primaryEnv 2000) oneSample (finishedChunk 60 100 1 2000),
                          writeRequest (primaryEnv 3000) oneSample (sentChunk 60 100 1 3000)],
                Chunks := [sentChunk 60 100 1 3000]\<rparr>"

text \<open>A primary whose \<^verbatim>\<open>Chunk.Push\<close> returns an error for a timestamp not above \<open>LastTs\<close>.\<close>

definition rejectingEnv :: "int Env" where
  "rejectingEnv = \<lparr>IsPrimary = True, Now = 2000, PushErr = (\<lambda>c ts v. ts \<le> LastTs c)\<rparr>"

text \<open>A buffer created with \<open>numChunks = 0\<close>, and what the first \<open>Add\<close> makes of it.\<close>

definition zeroCap :: "int AggMetric" where
  "zeroCap = NewAggMetric ''k'' 60 0 0 0"

definition zeroCap_added :: "int AggMetric" where
  "zeroCap_added = \<lparr>store = [], Key = ''k'', CurrentChunkPos = 0, NumChunks = 0, ChunkSpan = 60,
                     Chunks = [onePoint 60 100 1 1000], aggregators = [], firstChunkT0 = 60,
                     ttl = 0\<rparr>"




section \<open>Evaluation of the fuel-driven loops on numerals\<close>

lemma collectIters_numeral:
  "collectIters (numeral k) a oldestPos newestPos =
     (case getChunk a oldestPos of
        None \<Rightarrow> Inl NilChunk
      | Some c \<Rightarrow>
          if oldestPos \<noteq> newestPos then
            (case collectIters (pred_numeral k) a (incWrap (uint (NumChunks a)) oldestPos)
                    newestPos of
               Inl e \<Rightarrow> Inl e
             | Inr iters \<Rightarrow> Inr (chunkIter c # iters))
          else Inr [chunkIter c])"
  by (simp add: numeral_eq_Suc)

section \<open>Ring arithmetic\<close>

lemma incWrap_range: "0 \<le> p \<Longrightarrow> p < n \<Longrightarrow> 0 \<le> incWrap n p \<and> incWrap n p < n"
  by (auto simp: incWrap_def)

lemma decWrap_range: "0 \<le> p \<Longrightarrow> p < n \<Longrightarrow> 0 \<le> decWrap n p \<and> decWrap n p < n"
  by (auto simp: decWrap_def)

lemma incWrap_decWrap: "0 \<le> p \<Longrightarrow> p < n \<Longrightarrow> incWrap n (decWrap n p) = p"
  by (auto simp: incWrap_def decWrap_def)


lemma fwdDist_self: "fwdDist n p p = 0"
  by (simp add: fwdDist_def)

lemma fwdDist_zero: "0 \<le> p \<Longrightarrow> p < n \<Longrightarrow> 0 \<le> q \<Longrightarrow> q < n \<Longrightarrow> fwdDist n p q = 0 \<Longrightarrow> p = q"
  by (auto simp: fwdDist_def split: if_splits)

lemma fwdDist_less: "0 \<le> p \<Longrightarrow> p < n \<Longrightarrow> 0 \<le> q \<Longrightarrow> q < n \<Longrightarrow> fwdDist n p q < nat n"
  by (auto simp: fwdDist_def split: if_splits)

lemma fwdDist_incWrap:
  "0 \<le> p \<Longrightarrow> p < n \<Longrightarrow> 0 \<le> q \<Longrightarrow> q < n \<Longrightarrow> p \<noteq> q \<Longrightarrow>
   fwdDist n p q = Suc (fwdDist n (incWrap n p) q)"
  by (auto simp: fwdDist_def incWrap_def split: if_splits)

lemma fwdDist_decWrap:
  "0 \<le> p \<Longrightarrow> p < n \<Longrightarrow> 0 \<le> q \<Longrightarrow> q < n \<Longrightarrow> p \<noteq> q \<Longrightarrow>
   fwdDist n p q = Suc (fwdDist n p (decWrap n q))"
  by (auto simp: fwdDist_def decWrap_def split: if_splits)

section \<open>persist\<close>

lemma needsSaving_irrefl: "\<not> needsSaving c c"
  by (simp add: needsSaving_def)

lemma persistWalk_fuel:
  assumes "0 \<le> pos" "pos < int (length cs)"
  shows "0 \<le> prev \<Longrightarrow> prev < int (length cs) \<Longrightarrow> fwdDist (int (length cs)) pos prev < fuel \<Longrightarrow>
         \<exists>ps. persistWalk fuel cs (cs ! nat pos) prev = Some ps"
proof (induction fuel arbitrary: prev)
  case 0
  then show ?case by simp
next
  case (Suc fuel)
  show ?case
  proof (cases "needsSaving (cs ! nat pos) (cs ! nat prev)")
    case False
    then show ?thesis by simp
  next
    case True
    then have ne: "pos \<noteq> prev" using needsSaving_irrefl by metis
    have "fwdDist (int (length cs)) pos prev = Suc (fwdDist (int (length cs)) pos (decWrap (int (length cs)) prev))"
      using fwdDist_decWrap[OF assms Suc.prems(1,2) ne] .
    then have "fwdDist (int (length cs)) pos (decWrap (int (length cs)) prev) < fuel"
      using Suc.prems(3) by simp
    from Suc.IH[OF _ _ this] decWrap_range[OF Suc.prems(1,2)]
    obtain ps where "persistWalk fuel cs (cs ! nat pos) (decWrap (int (length cs)) prev) = Some ps"
      by blast
    with True show ?thesis by simp
  qed
qed

lemma persistWalk_start_fuel:
  assumes "0 \<le> pos" "pos < int (length cs)"
  shows "\<exists>ps. persistWalk (length cs) cs (cs ! nat pos) (decWrap (int (length cs)) pos) = Some ps"
proof -
  have r: "0 \<le> decWrap (int (length cs)) pos \<and> decWrap (int (length cs)) pos < int (length cs)"
    using decWrap_range[OF assms] .
  have "fwdDist (int (length cs)) pos (decWrap (int (length cs)) pos) < length cs"
    using fwdDist_less[OF assms] r by fastforce
  then show ?thesis using persistWalk_fuel[OF assms] r by blast
qed

lemma fwdDist_decWrap_left:
  "0 \<le> p \<Longrightarrow> p < n \<Longrightarrow> 0 \<le> q \<Longrightarrow> q < n \<Longrightarrow> Suc (fwdDist n p q) < nat n \<Longrightarrow>
   fwdDist n (decWrap n p) q = Suc (fwdDist n p q)"
  by (auto simp: fwdDist_def decWrap_def split: if_splits)

lemma fwdDist_decWrap_self:
  "0 \<le> p \<Longrightarrow> p < n \<Longrightarrow> 1 < n \<Longrightarrow> fwdDist n (decWrap n p) p = 1"
  by (auto simp: fwdDist_def decWrap_def split: if_splits)

lemma length_markSaving: "length (markSaving ps cs) = length cs"
  by (simp add: markSaving_def)

lemma nth_markSaving:
  "i < length cs \<Longrightarrow> markSaving ps cs ! i = (if int i \<in> set ps then (cs ! i)\<lparr>Saving := True\<rparr> else cs ! i)"
  by (simp add: markSaving_def)

lemma markSaving_Nil: "markSaving [] cs = cs"
  by (rule nth_equalityI) (simp_all add: markSaving_def)

lemma markSaving_Cons:
  "0 \<le> p \<Longrightarrow> markSaving (p # ps) cs = markSaving ps (cs[nat p := (cs ! nat p)\<lparr>Saving := True\<rparr>])"
  by (rule nth_equalityI) (auto simp: markSaving_def nth_list_update)

lemma submitAll_eq:
  "\<forall>p\<in>set ps. 0 \<le> p \<and> p < int (length (Chunks a)) \<Longrightarrow> distinct ps \<Longrightarrow>
   submitAll env a ps =
     a\<lparr>store := store a @ map (\<lambda>p. writeRequest env a (Chunks a ! nat p)) ps,
       Chunks := markSaving ps (Chunks a)\<rparr>"
proof (induction ps arbitrary: a)
  case Nil
  then show ?case by (simp add: markSaving_Nil)
next
  case (Cons p ps)
  let ?a' = "submitOne env a p"
  have len: "length (Chunks ?a') = length (Chunks a)" by (simp add: submitOne_def)
  have r: "\<forall>q\<in>set ps. 0 \<le> q \<and> q < int (length (Chunks ?a'))"
    using Cons.prems(1) len by simp
  have d: "distinct ps" using Cons.prems(2) by simp
  have same: "\<forall>q\<in>set ps. Chunks ?a' ! nat q = Chunks a ! nat q"
  proof
    fix q assume q: "q \<in> set ps"
    then have "q \<noteq> p" using Cons.prems(2) by auto
    moreover have "0 \<le> q" "0 \<le> p" using Cons.prems(1) q by auto
    ultimately have "nat q \<noteq> nat p" by simp
    then show "Chunks ?a' ! nat q = Chunks a ! nat q" by (simp add: submitOne_def)
  qed
  have m: "map (\<lambda>q. writeRequest env ?a' (Chunks ?a' ! nat q)) ps
         = map (\<lambda>q. writeRequest env a (Chunks a ! nat q)) ps"
    using same by (simp add: writeRequest_def submitOne_def)
  have p0: "0 \<le> p" using Cons.prems(1) by simp
  show ?case
    unfolding submitAll.simps Cons.IH[OF r d] m
    by (simp add: submitOne_def writeRequest_def markSaving_Cons[OF p0])
qed

lemma fwdDist_decWrap_left_ne:
  "0 \<le> p \<Longrightarrow> p < n \<Longrightarrow> 0 \<le> q \<Longrightarrow> q < n \<Longrightarrow> decWrap n p \<noteq> q \<Longrightarrow>
   fwdDist n (decWrap n p) q = Suc (fwdDist n p q)"
  by (auto simp: fwdDist_def decWrap_def split: if_splits)

lemma length_backFrom: "length (backFrom n k p) = k"
  by (induction k arbitrary: p) auto

lemma persistWalk_char:
  assumes pos: "0 \<le> pos" "pos < int (length cs)"
  shows "0 \<le> prev \<Longrightarrow> prev < int (length cs) \<Longrightarrow>
         persistWalk fuel cs (cs ! nat pos) prev = Some ps \<Longrightarrow>
         ps = backFrom (int (length cs)) (length ps) prev
         \<and> (\<forall>p\<in>set ps. needsSaving (cs ! nat pos) (cs ! nat p) \<and> 0 \<le> p \<and> p < int (length cs)
                \<and> p \<noteq> pos
                \<and> fwdDist (int (length cs)) prev pos \<le> fwdDist (int (length cs)) p pos)
         \<and> distinct ps
         \<and> (ps \<noteq> [] \<longrightarrow> hd ps = prev)
         \<and> \<not> needsSaving (cs ! nat pos)
               (cs ! nat ((decWrap (int (length cs)) ^^ length ps) prev))"
proof (induction fuel arbitrary: prev ps)
  case 0
  then show ?case by simp
next
  case (Suc fuel)
  let ?n = "int (length cs)"
  show ?case
  proof (cases "needsSaving (cs ! nat pos) (cs ! nat prev)")
    case False
    with Suc.prems(3) have "ps = []" by simp
    with False show ?thesis by simp
  next
    case True
    then have ne: "prev \<noteq> pos" using needsSaving_irrefl by metis
    from True Suc.prems(3) obtain ps' where
      w: "persistWalk fuel cs (cs ! nat pos) (decWrap ?n prev) = Some ps'" and ps: "ps = prev # ps'"
      by (auto split: option.splits)
    have r': "0 \<le> decWrap ?n prev" "decWrap ?n prev < ?n"
      using decWrap_range[OF Suc.prems(1,2)] by auto
    note IH = Suc.IH[OF r' w]
    have far: "\<forall>p\<in>set ps'. fwdDist ?n prev pos < fwdDist ?n p pos"
    proof
      fix p assume p: "p \<in> set ps'"
      then have ne': "ps' \<noteq> []" by auto
      with IH have "hd ps' = decWrap ?n prev" by simp
      with ne' have "decWrap ?n prev \<in> set ps'" using hd_in_set by metis
      with IH have "decWrap ?n prev \<noteq> pos" by blast
      then have "fwdDist ?n (decWrap ?n prev) pos = Suc (fwdDist ?n prev pos)"
        using fwdDist_decWrap_left_ne[OF Suc.prems(1,2) pos] by simp
      moreover have "fwdDist ?n (decWrap ?n prev) pos \<le> fwdDist ?n p pos" using IH p by blast
      ultimately show "fwdDist ?n prev pos < fwdDist ?n p pos" by simp
    qed
    have c1: "ps = backFrom ?n (length ps) prev" using IH ps by simp
    have c2: "\<forall>p\<in>set ps. needsSaving (cs ! nat pos) (cs ! nat p) \<and> 0 \<le> p \<and> p < ?n \<and> p \<noteq> pos
                \<and> fwdDist ?n prev pos \<le> fwdDist ?n p pos"
      using IH ps True Suc.prems(1,2) ne far by (auto simp: less_imp_le)
    have c3: "distinct ps" using IH ps far by auto
    have c4: "\<not> needsSaving (cs ! nat pos) (cs ! nat ((decWrap ?n ^^ length ps) prev))"
      using IH ps by (simp add: funpow_swap1)
    show ?thesis using c1 c2 c3 c4 ps by simp
  qed
qed

lemma markSaving_set: "set ps = set qs \<Longrightarrow> markSaving ps cs = markSaving qs cs"
  by (simp add: markSaving_def)

lemma persist_secondary:
  "0 \<le> pos \<Longrightarrow> pos < numChunksOf a \<Longrightarrow> \<not> IsPrimary env \<Longrightarrow>
   persist env a pos = Inr (a\<lparr>Chunks := (Chunks a)[nat pos := Finish env (Chunks a ! nat pos)]\<rparr>)"
  by (simp add: persist_def Let_def)

lemma persist_primary:
  assumes pos: "0 \<le> pos" "pos < numChunksOf a" and prim: "IsPrimary env"
  defines "cs1 \<equiv> (Chunks a)[nat pos := Finish env (Chunks a ! nat pos)]"
  shows "\<exists>ps. persistWalk (length cs1) cs1 (cs1 ! nat pos) (decWrap (int (length cs1)) pos) = Some ps
           \<and> persist env a pos =
               Inr (a\<lparr>store := store a @ map (\<lambda>p. writeRequest env a (cs1 ! nat p)) (rev (pos # ps)),
                      Chunks := markSaving (pos # ps) cs1\<rparr>)"
proof -
  have len: "length cs1 = length (Chunks a)" by (simp add: cs1_def)
  have pos1: "0 \<le> pos" "pos < int (length cs1)" using pos len by (auto simp: numChunksOf_def)
  obtain ps where w: "persistWalk (length cs1) cs1 (cs1 ! nat pos) (decWrap (int (length cs1)) pos) = Some ps"
    using persistWalk_start_fuel[OF pos1] by blast
  have r: "0 \<le> decWrap (int (length cs1)) pos" "decWrap (int (length cs1)) pos < int (length cs1)"
    using decWrap_range[OF pos1] by auto
  note ch = persistWalk_char[OF pos1 r w]
  let ?a1 = "a\<lparr>Chunks := cs1\<rparr>"
  have rng: "\<forall>p\<in>set (rev (pos # ps)). 0 \<le> p \<and> p < int (length (Chunks ?a1))"
    using ch pos1 by auto
  have dist: "distinct (rev (pos # ps))" using ch by auto
  have "persist env a pos = Inr (submitAll env ?a1 (rev (pos # ps)))"
    using pos prim w unfolding persist_def Let_def cs1_def[symmetric]
    by (simp add: numChunksOf_def len)
  also have "submitAll env ?a1 (rev (pos # ps)) =
      ?a1\<lparr>store := store ?a1 @ map (\<lambda>p. writeRequest env ?a1 (Chunks ?a1 ! nat p)) (rev (pos # ps)),
          Chunks := markSaving (rev (pos # ps)) (Chunks ?a1)\<rparr>"
    using submitAll_eq[OF rng dist] .
  also have "\<dots> = a\<lparr>store := store a @ map (\<lambda>p. writeRequest env a (cs1 ! nat p)) (rev (pos # ps)),
                     Chunks := markSaving (pos # ps) cs1\<rparr>"
    using markSaving_set[of "rev (pos # ps)" "pos # ps" cs1] by (simp add: writeRequest_def)
  finally show ?thesis using w by blast
qed

lemma ringAscending_step:
  assumes "ringAscending a" "0 \<le> p" "p < numChunksOf a" "p \<noteq> CurrentChunkPos a"
  shows "T0 (Chunks a ! nat p) < T0 (Chunks a ! nat (incWrap (numChunksOf a) p))"
proof -
  have "nat p \<in> {0..<length (Chunks a)}" using assms(2,3) by (auto simp: numChunksOf_def)
  moreover have "int (nat p) = p" using assms(2) by simp
  ultimately show ?thesis using assms(1,4) unfolding ringAscending_def by metis
qed

lemma ringAscending_back:
  assumes "ringAscending a" "0 \<le> q" "q < numChunksOf a" "decWrap (numChunksOf a) q \<noteq> CurrentChunkPos a"
  shows "T0 (Chunks a ! nat (decWrap (numChunksOf a) q)) < T0 (Chunks a ! nat q)"
  using ringAscending_step[OF assms(1) _ _ assms(4)] decWrap_range[OF assms(2,3)]
    incWrap_decWrap[OF assms(2,3)] by simp

lemma ring_newest_max:
  assumes asc: "ringAscending a" and cur: "currentInRange a"
  shows "0 \<le> p \<Longrightarrow> p < numChunksOf a \<Longrightarrow> fwdDist (numChunksOf a) p (CurrentChunkPos a) = d \<Longrightarrow>
         T0 (Chunks a ! nat p) \<le> T0 (Chunks a ! nat (CurrentChunkPos a))"
proof (induction d arbitrary: p)
  case 0
  then have "p = CurrentChunkPos a" using fwdDist_zero cur unfolding currentInRange_def by blast
  then show ?case by simp
next
  case (Suc d)
  have ne: "p \<noteq> CurrentChunkPos a" using Suc.prems(3) by (auto simp: fwdDist_self)
  have c: "0 \<le> CurrentChunkPos a" "CurrentChunkPos a < numChunksOf a"
    using cur by (auto simp: currentInRange_def)
  have "fwdDist (numChunksOf a) p (CurrentChunkPos a)
        = Suc (fwdDist (numChunksOf a) (incWrap (numChunksOf a) p) (CurrentChunkPos a))"
    using fwdDist_incWrap[OF Suc.prems(1,2) c ne] .
  then have d: "fwdDist (numChunksOf a) (incWrap (numChunksOf a) p) (CurrentChunkPos a) = d"
    using Suc.prems(3) by simp
  have r: "0 \<le> incWrap (numChunksOf a) p" "incWrap (numChunksOf a) p < numChunksOf a"
    using incWrap_range[OF Suc.prems(1,2)] by auto
  have "T0 (Chunks a ! nat p) < T0 (Chunks a ! nat (incWrap (numChunksOf a) p))"
    using ringAscending_step[OF asc Suc.prems(1,2) ne] .
  also have "\<dots> \<le> T0 (Chunks a ! nat (CurrentChunkPos a))" using Suc.IH[OF r d] .
  finally show ?case by simp
qed

lemma ring_newest_max':
  "ringAscending a \<Longrightarrow> currentInRange a \<Longrightarrow> 0 \<le> p \<Longrightarrow> p < numChunksOf a \<Longrightarrow>
   T0 (Chunks a ! nat p) \<le> T0 (Chunks a ! nat (CurrentChunkPos a))"
  using ring_newest_max by blast

lemma backFrom_descending:
  assumes asc: "ringAscending a"
  shows "0 \<le> q \<Longrightarrow> q < numChunksOf a \<Longrightarrow>
         \<forall>p\<in>set (backFrom (numChunksOf a) k (decWrap (numChunksOf a) q)). p \<noteq> CurrentChunkPos a \<Longrightarrow>
         sorted_wrt (\<lambda>x y. T0 (Chunks a ! nat y) < T0 (Chunks a ! nat x))
            (backFrom (numChunksOf a) k (decWrap (numChunksOf a) q))
         \<and> (\<forall>p\<in>set (backFrom (numChunksOf a) k (decWrap (numChunksOf a) q)).
               T0 (Chunks a ! nat p) < T0 (Chunks a ! nat q))"
proof (induction k arbitrary: q)
  case 0
  then show ?case by simp
next
  case (Suc k)
  let ?n = "numChunksOf a"
  let ?q' = "decWrap ?n q"
  have r: "0 \<le> ?q'" "?q' < ?n" using decWrap_range[OF Suc.prems(1,2)] by auto
  have ne: "?q' \<noteq> CurrentChunkPos a" using Suc.prems(3) by simp
  have lt: "T0 (Chunks a ! nat ?q') < T0 (Chunks a ! nat q)"
    using ringAscending_back[OF asc Suc.prems(1,2) ne] .
  have rest: "\<forall>p\<in>set (backFrom ?n k (decWrap ?n ?q')). p \<noteq> CurrentChunkPos a"
    using Suc.prems(3) by simp
  note IH = Suc.IH[OF r rest]
  have "\<forall>p\<in>set (backFrom ?n k (decWrap ?n ?q')). T0 (Chunks a ! nat p) < T0 (Chunks a ! nat q)"
    using IH lt by (meson order.strict_trans)
  then show ?case using IH lt by simp
qed

lemma T0_nth_cong:
  assumes "map T0 cs' = map T0 cs" "i < length cs"
  shows "T0 (cs' ! i) = T0 (cs ! i)"
proof -
  have "length cs' = length cs" using assms(1) map_eq_imp_length_eq by blast
  then have "T0 (cs' ! i) = map T0 cs' ! i" using assms(2) by simp
  also have "\<dots> = map T0 cs ! i" using assms(1) by simp
  also have "\<dots> = T0 (cs ! i)" using assms(2) by simp
  finally show ?thesis .
qed

lemma ringAscending_cong:
  assumes t: "map T0 (Chunks a') = map T0 (Chunks a)"
    and c: "CurrentChunkPos a' = CurrentChunkPos a"
  shows "ringAscending a' = ringAscending a"
proof -
  have len: "length (Chunks a') = length (Chunks a)" using t map_eq_imp_length_eq by blast
  have n: "numChunksOf a' = numChunksOf a" using len by (simp add: numChunksOf_def)
  have r: "\<And>p. p < length (Chunks a) \<Longrightarrow>
             nat (incWrap (numChunksOf a) (int p)) < length (Chunks a)"
  proof -
    fix p assume "p < length (Chunks a)"
    then have "0 \<le> int p" "int p < numChunksOf a" by (auto simp: numChunksOf_def)
    from incWrap_range[OF this] show "nat (incWrap (numChunksOf a) (int p)) < length (Chunks a)"
      by (auto simp: numChunksOf_def)
  qed
  show ?thesis
    unfolding ringAscending_def n c len
    using T0_nth_cong[OF t] r by auto
qed

lemma map_T0_finish:
  "map T0 (cs[i := Finish env (cs ! i)]) = map T0 cs"
proof (rule nth_equalityI)
  show "length (map T0 (cs[i := Finish env (cs ! i)])) = length (map T0 cs)" by simp
next
  fix j assume "j < length (map T0 (cs[i := Finish env (cs ! i)]))"
  then have j: "j < length cs" by simp
  show "map T0 (cs[i := Finish env (cs ! i)]) ! j = map T0 cs ! j"
  proof (cases "j = i")
    case True
    with j show ?thesis by (simp add: Finish_def)
  next
    case False
    with j show ?thesis by simp
  qed
qed

lemma persist_pending_sorted:
  assumes asc: "ringAscending a" and cur: "currentInRange a"
    and pos: "0 \<le> pos" "pos < numChunksOf a"
    and w: "persistWalk (length cs1) cs1 (cs1 ! nat pos) (decWrap (int (length cs1)) pos) = Some ps"
    and cs1: "cs1 = (Chunks a)[nat pos := Finish env (Chunks a ! nat pos)]"
  shows "sorted_wrt (<) (map (\<lambda>p. T0 (cs1 ! nat p)) (rev (pos # ps)))"
proof -
  let ?a1 = "a\<lparr>Chunks := cs1\<rparr>"
  have t: "map T0 (Chunks ?a1) = map T0 (Chunks a)" by (simp add: cs1 map_T0_finish)
  have asc1: "ringAscending ?a1" using ringAscending_cong[OF t] asc by simp
  have n1: "numChunksOf ?a1 = numChunksOf a" by (simp add: numChunksOf_def cs1)
  have cur1: "currentInRange ?a1" using cur by (simp add: currentInRange_def n1)
  have len: "int (length cs1) = numChunksOf a" by (simp add: cs1 numChunksOf_def)
  have pos1: "0 \<le> pos" "pos < int (length cs1)" using pos len by auto
  have r: "0 \<le> decWrap (int (length cs1)) pos" "decWrap (int (length cs1)) pos < int (length cs1)"
    using decWrap_range[OF pos1] by auto
  note ch = persistWalk_char[OF pos1 r w]
  have mx: "T0 (cs1 ! nat pos) \<le> T0 (cs1 ! nat (CurrentChunkPos a))"
    using ring_newest_max'[OF asc1 cur1, of pos] pos n1 by simp
  have nocur: "\<forall>p\<in>set ps. p \<noteq> CurrentChunkPos a"
  proof
    fix p assume "p \<in> set ps"
    then have "T0 (cs1 ! nat p) < T0 (cs1 ! nat pos)" using ch by (auto simp: needsSaving_def)
    with mx show "p \<noteq> CurrentChunkPos a" by auto
  qed
  have ps: "ps = backFrom (numChunksOf ?a1) (length ps) (decWrap (numChunksOf ?a1) pos)"
    using ch len n1 by simp
  have "\<forall>p\<in>set (backFrom (numChunksOf ?a1) (length ps) (decWrap (numChunksOf ?a1) pos)).
          p \<noteq> CurrentChunkPos ?a1"
    using nocur ps by simp
  from backFrom_descending[OF asc1 _ _ this] pos n1 ps
  have "sorted_wrt (\<lambda>x y. T0 (cs1 ! nat y) < T0 (cs1 ! nat x)) ps
        \<and> (\<forall>p\<in>set ps. T0 (cs1 ! nat p) < T0 (cs1 ! nat pos))"
    by simp
  then have "sorted_wrt (\<lambda>x y. T0 (cs1 ! nat y) < T0 (cs1 ! nat x)) (pos # ps)" by simp
  then show ?thesis by (simp only: sorted_wrt_map sorted_wrt_rev)
qed

lemma distinct_length_le:
  assumes "distinct (xs :: int list)" "\<forall>x\<in>set xs. 0 \<le> x \<and> x < int n"
  shows "length xs \<le> n"
proof -
  have "set xs \<subseteq> {0..<int n}" using assms(2) by auto
  then have "card (set xs) \<le> card {0..<int n}" by (intro card_mono) auto
  then show ?thesis using distinct_card[OF assms(1)] by simp
qed

lemma ringAscending_unsaved3: "ringAscending unsaved3"
  by (simp add: ringAscending_def unsaved3_def finishedChunk_def onePoint_def numChunksOf_def
      incWrap_def atLeastLessThanSuc)

lemma persist_unsaved3: "persist (primaryEnv 2000) unsaved3 2 = Inr unsaved3_persisted"
  by (simp add: unsaved3_persisted_def unsaved3_def finishedChunk_def sentChunk_def onePoint_def
      primaryEnv_def persist_def numChunksOf_def Finish_def decWrap_def needsSaving_def
      submitOne_def writeRequest_def)

lemma persist_Inr_range:
  "persist env a pos = Inr a' \<Longrightarrow> 0 \<le> pos \<and> pos < numChunksOf a"
  by (auto simp: persist_def split: if_splits)

lemma persist_total:
  "0 \<le> pos \<Longrightarrow> pos < numChunksOf a \<Longrightarrow> \<exists>a'. persist env a pos = Inr a'"
  using persist_primary persist_secondary by (cases "IsPrimary env") blast+

lemma nth_finishAt:
  "i < length cs \<Longrightarrow>
   cs[j := Finish env (cs ! j)] ! i = (if i = j then Finish env (cs ! i) else cs ! i)"
  by (cases "i = j") simp_all

lemma persist_frame:
  assumes p: "persist env a pos = Inr a'"
  shows "CurrentChunkPos a' = CurrentChunkPos a \<and> NumChunks a' = NumChunks a
       \<and> ChunkSpan a' = ChunkSpan a \<and> Key a' = Key a \<and> aggregators a' = aggregators a
       \<and> firstChunkT0 a' = firstChunkT0 a \<and> ttl a' = ttl a
       \<and> length (Chunks a') = length (Chunks a)
       \<and> (\<forall>i<length (Chunks a).
             T0 (Chunks a' ! i) = T0 (Chunks a ! i) \<and> Points (Chunks a' ! i) = Points (Chunks a ! i)
           \<and> LastTs (Chunks a' ! i) = LastTs (Chunks a ! i)
           \<and> NumPoints (Chunks a' ! i) = NumPoints (Chunks a ! i)
           \<and> Saved (Chunks a' ! i) = Saved (Chunks a ! i)
           \<and> (Saving (Chunks a ! i) \<longrightarrow> Saving (Chunks a' ! i)))"
proof -
  have pos: "0 \<le> pos" "pos < numChunksOf a" using persist_Inr_range[OF p] by auto
  let ?cs1 = "(Chunks a)[nat pos := Finish env (Chunks a ! nat pos)]"
  have f: "\<And>i. i < length (Chunks a) \<Longrightarrow>
        T0 (?cs1 ! i) = T0 (Chunks a ! i) \<and> Points (?cs1 ! i) = Points (Chunks a ! i)
      \<and> LastTs (?cs1 ! i) = LastTs (Chunks a ! i) \<and> NumPoints (?cs1 ! i) = NumPoints (Chunks a ! i)
      \<and> Saved (?cs1 ! i) = Saved (Chunks a ! i) \<and> Saving (?cs1 ! i) = Saving (Chunks a ! i)"
    by (simp add: nth_finishAt) (simp add: Finish_def)
  show ?thesis
  proof (cases "IsPrimary env")
    case False
    then have "a' = a\<lparr>Chunks := ?cs1\<rparr>" using persist_secondary[OF pos] p by simp
    then show ?thesis using f by simp
  next
    case True
    from persist_primary[OF pos True] p obtain ps where
      "a' = a\<lparr>store := store a @ map (\<lambda>p. writeRequest env a (?cs1 ! nat p)) (rev (pos # ps)),
              Chunks := markSaving (pos # ps) ?cs1\<rparr>"
      by auto
    then show ?thesis using f by (simp add: length_markSaving nth_markSaving)
  qed
qed

lemma persist_finishes:
  assumes p: "persist env a pos = Inr a'"
  shows "Finished (Chunks a' ! nat pos)"
proof -
  have pos: "0 \<le> pos" "pos < numChunksOf a" using persist_Inr_range[OF p] by auto
  then have i: "nat pos < length (Chunks a)" by (auto simp: numChunksOf_def)
  let ?cs1 = "(Chunks a)[nat pos := Finish env (Chunks a ! nat pos)]"
  have f: "Finished (?cs1 ! nat pos)" using i by (simp add: Finish_def)
  show ?thesis
  proof (cases "IsPrimary env")
    case False
    then have "a' = a\<lparr>Chunks := ?cs1\<rparr>" using persist_secondary[OF pos] p by simp
    then show ?thesis using f by simp
  next
    case True
    from persist_primary[OF pos True] p obtain ps where
      "a' = a\<lparr>store := store a @ map (\<lambda>p. writeRequest env a (?cs1 ! nat p)) (rev (pos # ps)),
              Chunks := markSaving (pos # ps) ?cs1\<rparr>"
      by auto
    then show ?thesis using f i by (simp add: nth_markSaving)
  qed
qed

lemma getChunk_Some:
  "getChunk a pos = Some c \<longleftrightarrow> 0 \<le> pos \<and> pos < numChunksOf a \<and> c = Chunks a ! nat pos"
  by (auto simp: getChunk_def)

lemma getChunk_empty: "Chunks a = [] \<Longrightarrow> getChunk a pos = None"
  by (simp add: getChunk_def numChunksOf_def)

lemma persist_primary_last:
  assumes pos: "0 \<le> pos" "pos < numChunksOf a" and prim: "IsPrimary env"
  shows "\<exists>a' older. persist env a pos = Inr a'
           \<and> store a' = store a @ older @ [writeRequest env a (Finish env (Chunks a ! nat pos))]
           \<and> (\<forall>r\<in>set older. wr_key r = Key a \<and> T0 (wr_chunk r) < T0 (Chunks a ! nat pos))"
proof -
  let ?cs1 = "(Chunks a)[nat pos := Finish env (Chunks a ! nat pos)]"
  have i: "nat pos < length (Chunks a)" using pos by (auto simp: numChunksOf_def)
  from persist_primary[OF pos prim] obtain ps where
    w: "persistWalk (length ?cs1) ?cs1 (?cs1 ! nat pos) (decWrap (int (length ?cs1)) pos) = Some ps"
    and p: "persist env a pos =
       Inr (a\<lparr>store := store a @ map (\<lambda>p. writeRequest env a (?cs1 ! nat p)) (rev (pos # ps)),
              Chunks := markSaving (pos # ps) ?cs1\<rparr>)"
    by blast
  have pos1: "0 \<le> pos" "pos < int (length ?cs1)" using pos by (auto simp: numChunksOf_def)
  have r: "0 \<le> decWrap (int (length ?cs1)) pos" "decWrap (int (length ?cs1)) pos < int (length ?cs1)"
    using decWrap_range[OF pos1] by auto
  note ch = persistWalk_char[OF pos1 r w]
  let ?older = "map (\<lambda>p. writeRequest env a (?cs1 ! nat p)) (rev ps)"
  have at: "?cs1 ! nat pos = Finish env (Chunks a ! nat pos)" using i by simp
  define a' where "a' = a\<lparr>store := store a @ map (\<lambda>p. writeRequest env a (?cs1 ! nat p)) (rev (pos # ps)),
              Chunks := markSaving (pos # ps) ?cs1\<rparr>"
  have s: "store a' = store a @ ?older @ [writeRequest env a (Finish env (Chunks a ! nat pos))]"
    unfolding a'_def using at by simp
  have p': "persist env a pos = Inr a'" unfolding a'_def using p .
  have t: "T0 (?cs1 ! nat pos) = T0 (Chunks a ! nat pos)" using at by (simp add: Finish_def)
  have o: "\<forall>r\<in>set ?older. wr_key r = Key a \<and> T0 (wr_chunk r) < T0 (Chunks a ! nat pos)"
  proof
    fix r assume "r \<in> set ?older"
    then obtain q where q: "q \<in> set ps" and rq: "r = writeRequest env a (?cs1 ! nat q)" by auto
    from ch q have "T0 (?cs1 ! nat q) < T0 (?cs1 ! nat pos)" by (auto simp: needsSaving_def)
    then show "wr_key r = Key a \<and> T0 (wr_chunk r) < T0 (Chunks a ! nat pos)"
      using rq t by (simp add: writeRequest_def)
  qed
  show ?thesis using p' s o by blast
qed

lemma persist_primary_again:
  assumes pos: "0 \<le> pos" "pos < numChunksOf a" and prim: "IsPrimary env" "IsPrimary env2"
    and p1: "persist env a pos = Inr a1"
  shows "persist env2 a1 pos =
           Inr (a1\<lparr>store := store a1 @ [writeRequest env2 a1 (Finish env2 (Chunks a1 ! nat pos))],
                   Chunks := markSaving [pos] ((Chunks a1)[nat pos := Finish env2 (Chunks a1 ! nat pos)])\<rparr>)"
proof -
  let ?cs1 = "(Chunks a)[nat pos := Finish env (Chunks a ! nat pos)]"
  have i: "nat pos < length (Chunks a)" using pos by (auto simp: numChunksOf_def)
  from persist_primary[OF pos prim(1)] p1 obtain ps where
    w: "persistWalk (length ?cs1) ?cs1 (?cs1 ! nat pos) (decWrap (int (length ?cs1)) pos) = Some ps"
    and a1: "a1 = a\<lparr>store := store a @ map (\<lambda>p. writeRequest env a (?cs1 ! nat p)) (rev (pos # ps)),
              Chunks := markSaving (pos # ps) ?cs1\<rparr>"
    by auto
  have pos1: "0 \<le> pos" "pos < int (length ?cs1)" using pos by (auto simp: numChunksOf_def)
  have r: "0 \<le> decWrap (int (length ?cs1)) pos" "decWrap (int (length ?cs1)) pos < int (length ?cs1)"
    using decWrap_range[OF pos1] by auto
  note ch = persistWalk_char[OF pos1 r w]
  let ?n = "int (length (Chunks a))"
  let ?prev = "decWrap ?n pos"
  have rp: "0 \<le> ?prev" "?prev < ?n" using r by auto
  then have ip: "nat ?prev < length (Chunks a)" by auto
  have len1: "length (Chunks a1) = length (Chunks a)" by (simp add: a1 length_markSaving)
  have pos2: "0 \<le> pos" "pos < numChunksOf a1" using pos len1 by (auto simp: numChunksOf_def)
  let ?cs2 = "(Chunks a1)[nat pos := Finish env2 (Chunks a1 ! nat pos)]"
  have len2: "length ?cs2 = length (Chunks a)" using len1 by simp
  have i2: "nat pos < length (Chunks a1)" using i len1 by simp
  have t2: "T0 (?cs2 ! nat pos) = T0 (?cs1 ! nat pos)"
    using i i2 by (simp add: Finish_def a1 nth_markSaving)
  have stop: "\<not> needsSaving (?cs2 ! nat pos) (?cs2 ! nat ?prev)"
  proof (cases "?prev = pos")
    case True
    then show ?thesis using needsSaving_irrefl by metis
  next
    case False
    then have "nat ?prev \<noteq> nat pos" using rp pos by auto
    then have e: "?cs2 ! nat ?prev = markSaving (pos # ps) ?cs1 ! nat ?prev" by (simp add: a1)
    show ?thesis
    proof (cases "ps = []")
      case True
      then have "\<not> needsSaving (?cs1 ! nat pos) (?cs1 ! nat ?prev)" using ch by simp
      moreover have "markSaving (pos # ps) ?cs1 ! nat ?prev = ?cs1 ! nat ?prev"
        using True False ip rp by (simp add: nth_markSaving)
      ultimately show ?thesis using e t2 by (simp add: needsSaving_def)
    next
      case False
      then have "hd ps = ?prev" using ch by simp
      then have "?prev \<in> set (pos # ps)" using False hd_in_set by fastforce
      then have "Saving (markSaving (pos # ps) ?cs1 ! nat ?prev)"
        using ip rp by (simp add: nth_markSaving)
      then show ?thesis using e by (simp add: needsSaving_def)
    qed
  qed
  have fuel: "length ?cs2 = Suc (length ?cs2 - 1)" using len2 i by simp
  have "persistWalk (length ?cs2) ?cs2 (?cs2 ! nat pos) (decWrap (int (length ?cs2)) pos) = Some []"
    using stop len2 by (subst fuel) simp
  then have "persist env2 a1 pos = Inr (submitAll env2 (a1\<lparr>Chunks := ?cs2\<rparr>) [pos])"
    using pos2 prim(2) by (simp add: persist_def Let_def numChunksOf_def)
  also have "submitAll env2 (a1\<lparr>Chunks := ?cs2\<rparr>) [pos]
      = a1\<lparr>store := store a1 @ [writeRequest env2 a1 (Finish env2 (Chunks a1 ! nat pos))],
           Chunks := markSaving [pos] ?cs2\<rparr>"
    using i2 pos by (simp add: submitOne_def writeRequest_def markSaving_Cons markSaving_Nil)
  finally show ?thesis .
qed

lemma persist_primary_current:
  assumes pos: "0 \<le> pos" "pos < numChunksOf a" and prim: "IsPrimary env"
    and p1: "persist env a pos = Inr a1"
  shows "Chunks a1 ! nat pos = (Finish env (Chunks a ! nat pos))\<lparr>Saving := True\<rparr>"
proof -
  let ?cs1 = "(Chunks a)[nat pos := Finish env (Chunks a ! nat pos)]"
  have i: "nat pos < length (Chunks a)" using pos by (auto simp: numChunksOf_def)
  from persist_primary[OF pos prim] p1 obtain ps where
    "a1 = a\<lparr>store := store a @ map (\<lambda>p. writeRequest env a (?cs1 ! nat p)) (rev (pos # ps)),
              Chunks := markSaving (pos # ps) ?cs1\<rparr>"
    by auto
  then show ?thesis using i pos by (simp add: nth_markSaving)
qed

lemma GC_oneSample:
  "GC (primaryEnv 2000) oneSample 1500 1500 = Inr (False, oneSample_persisted)"
  by (simp add: GC_def getChunk_def numChunksOf_def oneSample_def onePoint_def
      oneSample_persisted_def finishedChunk_def sentChunk_def primaryEnv_def persist_def
      Finish_def decWrap_def needsSaving_def submitOne_def writeRequest_def)

lemma GC_oneSample_again:
  "GC (primaryEnv 3000) oneSample_persisted 2500 2500 = Inr (False, oneSample_persisted_twice)"
  by (simp add: GC_def getChunk_def numChunksOf_def oneSample_def onePoint_def
      oneSample_persisted_def oneSample_persisted_twice_def finishedChunk_def sentChunk_def
      primaryEnv_def persist_def Finish_def decWrap_def needsSaving_def submitOne_def
      writeRequest_def)

section \<open>Add\<close>

lemma pushAt_None: "pushAt env a pos ts val = None \<longleftrightarrow> PushErr env (Chunks a ! nat pos) ts val"
  by (simp add: pushAt_def Push_def)

lemma pushAt_changes:
  assumes "pushAt env a pos ts val = Some a1" "0 \<le> pos" "pos < numChunksOf a"
  shows "Chunks (addAggregators a1 ts val) \<noteq> Chunks a"
proof -
  have i: "nat pos < length (Chunks a)" using assms(2,3) by (auto simp: numChunksOf_def)
  from assms(1) have a1: "Chunks a1 = (Chunks a)[nat pos := (Chunks a ! nat pos)\<lparr>Points := Points (Chunks a ! nat pos) @ [(ts, val)], LastTs := ts,
                   NumPoints := NumPoints (Chunks a ! nat pos) + 1, LastWrite := Now env\<rparr>]"
    by (auto simp: pushAt_def Push_def split: if_splits)
  have "Points (Chunks a1 ! nat pos) = Points (Chunks a ! nat pos) @ [(ts, val)]"
    using i by (simp add: a1)
  then have "Chunks a1 ! nat pos \<noteq> Chunks a ! nat pos" by auto
  then show ?thesis by (auto simp: addAggregators_def)
qed

lemma Add_reject_iff:
  assumes span: "ChunkSpan a \<noteq> 0" and cur: "getChunk a (CurrentChunkPos a) = Some c"
  shows "Add env a ctr ts val = Inr (a, ctr) \<longleftrightarrow>
           ts - ts mod ChunkSpan a < T0 c
         \<or> (ts - ts mod ChunkSpan a = T0 c \<and> (Saved c \<or> PushErr env c ts val))"
proof -
  let ?t0 = "ts - ts mod ChunkSpan a"
  have pos: "0 \<le> CurrentChunkPos a" "CurrentChunkPos a < numChunksOf a"
    and c: "c = Chunks a ! nat (CurrentChunkPos a)"
    using cur by (auto simp: getChunk_Some)
  consider (same_saved) "?t0 = T0 c" "Saved c"
    | (same_fail) "?t0 = T0 c" "\<not> Saved c" "PushErr env c ts val"
    | (same_ok) "?t0 = T0 c" "\<not> Saved c" "\<not> PushErr env c ts val"
    | (older) "?t0 < T0 c"
    | (newer) "?t0 \<noteq> T0 c" "\<not> ?t0 < T0 c"
    by blast
  then show ?thesis
  proof cases
    case same_saved
    then show ?thesis using span cur by (simp add: Add_def Let_def)
  next
    case same_fail
    then have "pushAt env a (CurrentChunkPos a) ts val = None" using c by (simp add: pushAt_None)
    then show ?thesis using same_fail span cur by (simp add: Add_def Let_def)
  next
    case same_ok
    then obtain a1 where p: "pushAt env a (CurrentChunkPos a) ts val = Some a1"
      using c pushAt_None[of env a "CurrentChunkPos a" ts val] by auto
    then have "Add env a ctr ts val = Inr (addAggregators a1 ts val, ctr)"
      using same_ok span cur by (simp add: Add_def Let_def)
    moreover have "addAggregators a1 ts val \<noteq> a" using pushAt_changes[OF p pos] by auto
    ultimately show ?thesis using same_ok by auto
  next
    case older
    then show ?thesis using span cur by (auto simp: Add_def Let_def)
  next
    case newer
    have "\<And>a' ctr'. Add env a ctr ts val = Inr (a', ctr') \<Longrightarrow>
            chunkCreate ctr' = Suc (chunkCreate ctr)"
      using newer span cur
      by (auto simp: Add_def Let_def split: sum.splits option.splits if_splits)
    then have "Add env a ctr ts val \<noteq> Inr (a, ctr)" by fastforce
    then show ?thesis using newer by auto
  qed
qed

lemma Sync_current:
  assumes cur: "getChunk a (CurrentChunkPos a) = Some c"
  shows "SyncChunkSaveState a (T0 c) =
           Inr (a\<lparr>Chunks := (Chunks a)[nat (CurrentChunkPos a) := c\<lparr>Saved := True\<rparr>]\<rparr>)"
proof -
  have pos: "0 \<le> CurrentChunkPos a" "CurrentChunkPos a < numChunksOf a"
    and c: "c = Chunks a ! nat (CurrentChunkPos a)"
    using cur by (auto simp: getChunk_Some)
  have ne: "Chunks a \<noteq> []" using pos by (auto simp: numChunksOf_def)
  have "getChunkByT0 a (T0 c) = Inr (Some (CurrentChunkPos a))"
    using pos c ne by (simp add: getChunkByT0_def)
  then show ?thesis using c by (simp add: SyncChunkSaveState_def)
qed

lemma oneSample_current:
  "getChunk oneSample (CurrentChunkPos oneSample) = Some (onePoint 60 100 1 1000)"
  by (simp add: getChunk_def numChunksOf_def oneSample_def)

section \<open>Get\<close>

lemma getChunk_in_range:
  "0 \<le> p \<Longrightarrow> p < numChunksOf a \<Longrightarrow> getChunk a p = Some (Chunks a ! nat p)"
  by (simp add: getChunk_def)

lemma seekOldest_result:
  "0 \<le> p \<Longrightarrow> p < numChunksOf a \<Longrightarrow> seekOldest fuel a from p c \<noteq> NilHit
   \<and> (\<forall>p' c'. seekOldest fuel a from p c = Stopped (p', c') \<longrightarrow>
          0 \<le> p' \<and> p' < numChunksOf a \<and> (c = Chunks a ! nat p \<longrightarrow> c' = Chunks a ! nat p'))"
proof (induction fuel arbitrary: p c)
  case 0
  then show ?case by simp
next
  case (Suc fuel)
  let ?p' = "incWrap (numChunksOf a) p"
  have r: "0 \<le> ?p'" "?p' < numChunksOf a" using incWrap_range[OF Suc.prems] by auto
  have g: "getChunk a ?p' = Some (Chunks a ! nat ?p')" using getChunk_in_range[OF r] .
  show ?case using Suc.IH[OF r, of "Chunks a ! nat ?p'"] Suc.prems g by (auto simp: Let_def)
qed

lemma seekNewest_result:
  "0 \<le> p \<Longrightarrow> p < numChunksOf a \<Longrightarrow> seekNewest fuel a to p c \<noteq> NilHit
   \<and> (\<forall>p' c'. seekNewest fuel a to p c = Stopped (p', c') \<longrightarrow>
          0 \<le> p' \<and> p' < numChunksOf a \<and> (c = Chunks a ! nat p \<longrightarrow> c' = Chunks a ! nat p'))"
proof (induction fuel arbitrary: p c)
  case 0
  then show ?case by simp
next
  case (Suc fuel)
  let ?p' = "decWrap (numChunksOf a) p"
  have r: "0 \<le> ?p'" "?p' < numChunksOf a" using decWrap_range[OF Suc.prems] by auto
  have g: "getChunk a ?p' = Some (Chunks a ! nat ?p')" using getChunk_in_range[OF r] .
  show ?case using Suc.IH[OF r, of "Chunks a ! nat ?p'"] Suc.prems g by (auto simp: Let_def)
qed

lemma collectIters_nonempty: "collectIters fuel a p q = Inr its \<Longrightarrow> its \<noteq> []"
  by (cases fuel) (auto split: option.splits if_splits sum.splits)

lemma oldestServed_Some:
  assumes "getChunk a (CurrentChunkPos a) = Some newest"
  shows "\<exists>p. 0 \<le> p \<and> p < numChunksOf a \<and> oldestServed env a = Some (p, Some (Chunks a ! nat p))"
proof -
  have pos: "0 \<le> CurrentChunkPos a" "CurrentChunkPos a < numChunksOf a"
    using assms by (auto simp: getChunk_Some)
  let ?o = "incWrap (numChunksOf a) (CurrentChunkPos a)"
  have r: "0 \<le> ?o" "?o < numChunksOf a" using incWrap_range[OF pos] by auto
  let ?o' = "incWrap (numChunksOf a) ?o"
  have r': "0 \<le> ?o'" "?o' < numChunksOf a" using incWrap_range[OF r] by auto
  show ?thesis
    using getChunk_in_range[OF r] getChunk_in_range[OF r'] r r'
    by (auto simp: oldestServed_def Let_def)
qed

lemma Get_empty_result:
  assumes ft: "from < to" and g: "Get env a from to = Inr (m, [])"
  shows "(getChunk a (CurrentChunkPos a) = None \<and> m = MaxInt32)
       \<or> (\<exists>newest. getChunk a (CurrentChunkPos a) = Some newest
              \<and> from \<ge> T0 newest + ChunkSpan a \<and> m = MaxInt32)
       \<or> (\<exists>newest p oldest. getChunk a (CurrentChunkPos a) = Some newest
              \<and> from < T0 newest + ChunkSpan a
              \<and> oldestServed env a = Some (p, Some oldest) \<and> to \<le> T0 oldest \<and> m = T0 oldest)"
proof -
  have nft: "\<not> to \<le> from" using ft by simp
  show ?thesis
  proof (cases "getChunk a (CurrentChunkPos a)")
  case None
  then show ?thesis using g nft by (simp add: Get_def)
next
  case (Some newest)
  have pos: "0 \<le> CurrentChunkPos a" "CurrentChunkPos a < numChunksOf a"
    using Some by (auto simp: getChunk_Some)
  from oldestServed_Some[OF Some] obtain p where
    p: "0 \<le> p" "p < numChunksOf a" and o: "oldestServed env a = Some (p, Some (Chunks a ! nat p))"
    by blast
  show ?thesis
  proof (cases "from \<ge> T0 newest + ChunkSpan a")
    case True
    then show ?thesis using g nft Some by (simp add: Get_def)
  next
    case False
    show ?thesis
    proof (cases "to \<le> T0 (Chunks a ! nat p)")
      case True
      then have "Get env a from to = Inr (T0 (Chunks a ! nat p), [])"
        using nft Some False o by (simp add: Get_def)
      then show ?thesis using g Some False o True by auto
    next
      case nt: False
      have so: "seekOldest (length (Chunks a)) a from p (Chunks a ! nat p) \<noteq> NilHit"
        using seekOldest_result[OF p] by blast
      have sn: "seekNewest (length (Chunks a)) a to (CurrentChunkPos a) newest \<noteq> NilHit"
        using seekNewest_result[OF pos] by blast
      have ci: "\<And>fuel p q. collectIters fuel a p q \<noteq> Inr []"
        using collectIters_nonempty by blast
      have "Get env a from to \<noteq> Inr (m, [])"
        using nft Some False o nt so sn ci
        by (auto simp del: collectIters.simps simp: Get_def split: seek.splits sum.splits prod.splits)
      with g have False by simp
      then show ?thesis ..
    qed
  qed
qed
qed

lemma oldestServed_explicit:
  assumes "getChunk a (CurrentChunkPos a) = Some newest"
  shows "oldestServed env a =
           (if \<not> IsPrimary env
                \<and> T0 (Chunks a ! nat (incWrap (numChunksOf a) (CurrentChunkPos a))) = firstChunkT0 a
            then Some (incWrap (numChunksOf a) (incWrap (numChunksOf a) (CurrentChunkPos a)),
                       Some (Chunks a ! nat (incWrap (numChunksOf a)
                                               (incWrap (numChunksOf a) (CurrentChunkPos a)))))
            else Some (incWrap (numChunksOf a) (CurrentChunkPos a),
                       Some (Chunks a ! nat (incWrap (numChunksOf a) (CurrentChunkPos a)))))"
proof -
  have pos: "0 \<le> CurrentChunkPos a" "CurrentChunkPos a < numChunksOf a"
    using assms by (auto simp: getChunk_Some)
  let ?o = "incWrap (numChunksOf a) (CurrentChunkPos a)"
  have r: "0 \<le> ?o" "?o < numChunksOf a" using incWrap_range[OF pos] by auto
  let ?o' = "incWrap (numChunksOf a) ?o"
  have r': "0 \<le> ?o'" "?o' < numChunksOf a" using incWrap_range[OF r] by auto
  show ?thesis
    using getChunk_in_range[OF r] getChunk_in_range[OF r']
    by (simp add: oldestServed_def Let_def)
qed

lemma unsaved3_current:
  "getChunk unsaved3 (CurrentChunkPos unsaved3) = Some (onePoint 180 190 3 1000)"
  by (simp add: getChunk_def numChunksOf_def unsaved3_def)

lemma unsaved3_oldest:
  "T0 (Chunks unsaved3 ! nat (incWrap (numChunksOf unsaved3) (CurrentChunkPos unsaved3))) = 60"
  by (simp add: incWrap_def numChunksOf_def unsaved3_def finishedChunk_def onePoint_def)

lemma unsaved3_second:
  "T0 (Chunks unsaved3 ! nat (incWrap (numChunksOf unsaved3)
         (incWrap (numChunksOf unsaved3) (CurrentChunkPos unsaved3)))) = 120"
  by (simp add: incWrap_def numChunksOf_def unsaved3_def finishedChunk_def onePoint_def)

section \<open>The shape of the results of Add, SyncChunkSaveState and GC\<close>

lemma pushAt_Some:
  "pushAt env a pos ts val = Some a1 \<longleftrightarrow>
     \<not> PushErr env (Chunks a ! nat pos) ts val
     \<and> a1 = a\<lparr>Chunks := (Chunks a)[nat pos := pushed env (Chunks a ! nat pos) ts val]\<rparr>"
  by (auto simp: pushAt_def Push_def pushed_def)

lemma Add_cases:
  assumes "Add env a ctr ts val = Inr (a', ctr')"
  defines "t0 \<equiv> ts - ts mod ChunkSpan a"
  shows "ChunkSpan a \<noteq> 0 \<and>
    ((getChunk a (CurrentChunkPos a) = None
        \<and> a' = addAggregators (a\<lparr>firstChunkT0 := t0,
                 Chunks := (Chunks a @ [NewChunk t0])
                   [0 := pushed env ((Chunks a @ [NewChunk t0]) ! 0) ts val]\<rparr>) ts val)
    \<or> (\<exists>c. getChunk a (CurrentChunkPos a) = Some c \<and> t0 = T0 c \<and> \<not> Saved c
        \<and> a' = addAggregators (a\<lparr>Chunks := (Chunks a)[nat (CurrentChunkPos a) := pushed env c ts val]\<rparr>) ts val)
    \<or> (\<exists>c. getChunk a (CurrentChunkPos a) = Some c \<and> t0 \<le> T0 c \<and> a' = a \<and> ctr' = ctr)
    \<or> (\<exists>c a1. getChunk a (CurrentChunkPos a) = Some c \<and> T0 c < t0
        \<and> persist env a (CurrentChunkPos a) = Inr a1
        \<and> numChunksOf a1 < uint (NumChunks a1)
        \<and> a' = addAggregators (a1\<lparr>CurrentChunkPos := incWrap (uint (NumChunks a1)) (CurrentChunkPos a1),
                   Chunks := (Chunks a1 @ [NewChunk t0])
                     [nat (incWrap (uint (NumChunks a1)) (CurrentChunkPos a1)) :=
                        pushed env ((Chunks a1 @ [NewChunk t0]) ! nat (incWrap (uint (NumChunks a1)) (CurrentChunkPos a1))) ts val]\<rparr>) ts val)
    \<or> (\<exists>c a1. getChunk a (CurrentChunkPos a) = Some c \<and> T0 c < t0
        \<and> persist env a (CurrentChunkPos a) = Inr a1
        \<and> \<not> numChunksOf a1 < uint (NumChunks a1)
        \<and> a' = addAggregators (a1\<lparr>CurrentChunkPos := incWrap (uint (NumChunks a1)) (CurrentChunkPos a1),
                   Chunks := (Chunks a1)
                     [nat (incWrap (uint (NumChunks a1)) (CurrentChunkPos a1)) :=
                        pushed env (NewChunk t0) ts val]\<rparr>) ts val))"
proof -
  have span: "ChunkSpan a \<noteq> 0" using assms(1) by (auto simp: Add_def split: if_splits)
  show ?thesis
  proof (cases "getChunk a (CurrentChunkPos a)")
    case None
    then show ?thesis using assms(1) span
      by (auto simp: Add_def Let_def t0_def pushAt_Some split: option.splits)
  next
    case (Some c)
    consider (same) "t0 = T0 c" | (older) "t0 < T0 c" | (newer) "T0 c < t0"
      using linorder_less_linear by blast
    then show ?thesis
    proof cases
      case same
      then show ?thesis using assms(1) span Some
        by (auto simp: Add_def Let_def t0_def pushAt_Some getChunk_Some split: option.splits if_splits)
    next
      case older
      then show ?thesis using assms(1) span Some
        by (auto simp: Add_def Let_def t0_def split: option.splits if_splits)
    next
      case newer
      then have ne: "t0 \<noteq> T0 c" "\<not> t0 < T0 c" by auto
      from assms(1) span Some ne obtain a1 where
        p: "persist env a (CurrentChunkPos a) = Inr a1"
        by (auto simp: Add_def Let_def t0_def split: sum.splits)
      show ?thesis
      proof (cases "numChunksOf a1 < uint (NumChunks a1)")
        case True
        then show ?thesis using assms(1) span Some ne p newer
          by (auto simp: Add_def Let_def t0_def pushAt_Some numChunksOf_def split: option.splits)
      next
        case False
        have "nat (incWrap (uint (NumChunks a1)) (CurrentChunkPos a1)) < length (Chunks a1)
              \<Longrightarrow> ?thesis"
          using False assms(1) span Some ne p newer
          by (auto simp: Add_def Let_def t0_def pushAt_Some numChunksOf_def split: option.splits)
        moreover have "nat (incWrap (uint (NumChunks a1)) (CurrentChunkPos a1)) < length (Chunks a1)"
        proof -
          have "0 \<le> CurrentChunkPos a" "CurrentChunkPos a < numChunksOf a"
            using Some by (auto simp: getChunk_Some)
          then have "0 \<le> CurrentChunkPos a1" "CurrentChunkPos a1 < numChunksOf a1"
            using persist_frame[OF p] by (auto simp: numChunksOf_def)
          then show ?thesis using False by (auto simp: incWrap_def numChunksOf_def)
        qed
        ultimately show ?thesis by blast
      qed
    qed
  qed
qed

lemma scanNewer_sound:
  "0 \<le> g \<Longrightarrow> g < int (length cs) \<Longrightarrow> scanNewer fuel cs cT ts g = Inr (Some p) \<Longrightarrow>
   0 \<le> p \<and> p < int (length cs) \<and> T0 (cs ! nat p) = ts"
proof (induction fuel arbitrary: g)
  case 0
  then show ?case by simp
next
  case (Suc fuel)
  have r: "0 \<le> incWrap (int (length cs)) g" "incWrap (int (length cs)) g < int (length cs)"
    using incWrap_range[OF Suc.prems(1,2)] by auto
  show ?case using Suc.prems(3) Suc.IH[OF r] r
    by (auto simp: Let_def split: if_splits)
qed

lemma scanOlder_sound:
  "0 \<le> g \<Longrightarrow> g < int (length cs) \<Longrightarrow> scanOlder fuel cs oT cT ts g = Inr (Some p) \<Longrightarrow>
   0 \<le> p \<and> p < int (length cs) \<and> T0 (cs ! nat p) = ts"
proof (induction fuel arbitrary: g)
  case 0
  then show ?case by simp
next
  case (Suc fuel)
  have r: "0 \<le> decWrap (int (length cs)) g" "decWrap (int (length cs)) g < int (length cs)"
    using decWrap_range[OF Suc.prems(1,2)] by auto
  show ?case using Suc.prems(3) Suc.IH[OF r] r
    by (auto simp: Let_def split: if_splits)
qed

lemma guessPos_range:
  assumes "0 \<le> CurrentChunkPos a" "CurrentChunkPos a < numChunksOf a"
  shows "0 \<le> guessPos a ts \<and> guessPos a ts < numChunksOf a"
proof -
  define k where "k = uint ((T0 (Chunks a ! nat (CurrentChunkPos a)) - ts) div ChunkSpan a)"
  have k: "0 \<le> k" by (simp add: k_def)
  have "guessPos a ts =
          (if k \<ge> numChunksOf a - 1 then incWrap (numChunksOf a) (CurrentChunkPos a)
           else if CurrentChunkPos a - k < 0 then CurrentChunkPos a - k + numChunksOf a
           else CurrentChunkPos a - k)"
    by (simp add: guessPos_def Let_def k_def)
  then show ?thesis using assms incWrap_range[OF assms] k by (auto split: if_splits)
qed

lemma getChunkByT0_unfold:
  assumes "Chunks a \<noteq> []" "0 \<le> CurrentChunkPos a" "CurrentChunkPos a < numChunksOf a"
    "ts < T0 (Chunks a ! nat (CurrentChunkPos a))" "length (Chunks a) \<noteq> 1" "ChunkSpan a \<noteq> 0"
  shows "getChunkByT0 a ts =
     (if T0 (Chunks a ! nat (guessPos a ts)) = ts then Inr (Some (guessPos a ts))
      else if ts > T0 (Chunks a ! nat (guessPos a ts)) then
        scanNewer (length (Chunks a)) (Chunks a) (T0 (Chunks a ! nat (CurrentChunkPos a))) ts
           (guessPos a ts)
      else
        scanOlder (length (Chunks a)) (Chunks a)
           (T0 (Chunks a ! nat (incWrap (numChunksOf a) (CurrentChunkPos a))))
           (T0 (Chunks a ! nat (CurrentChunkPos a))) ts (guessPos a ts))"
proof -
  have "ts \<noteq> T0 (Chunks a ! nat (CurrentChunkPos a))"
       "\<not> ts > T0 (Chunks a ! nat (CurrentChunkPos a))"
    using assms(4) by auto
  then show ?thesis using assms
    by (simp add: getChunkByT0_def guessPos_def Let_def)
qed

lemma getChunkByT0_sound:
  assumes "getChunkByT0 a ts = Inr (Some p)"
  shows "0 \<le> p \<and> p < numChunksOf a \<and> T0 (Chunks a ! nat p) = ts"
proof -
  have ne: "Chunks a \<noteq> []" using assms by (auto simp: getChunkByT0_def)
  have pos: "0 \<le> CurrentChunkPos a" "CurrentChunkPos a < numChunksOf a"
    using assms ne by (auto simp: getChunkByT0_def split: if_splits)
  show ?thesis
  proof (cases "ts = T0 (Chunks a ! nat (CurrentChunkPos a))")
    case True
    then show ?thesis using assms ne pos by (auto simp: getChunkByT0_def)
  next
    case False
    then have lt: "ts < T0 (Chunks a ! nat (CurrentChunkPos a))"
      and l1: "length (Chunks a) \<noteq> 1" and sp: "ChunkSpan a \<noteq> 0"
      using assms ne pos by (auto simp: getChunkByT0_def Let_def split: if_splits)
    note u = getChunkByT0_unfold[OF ne pos lt l1 sp]
    have g: "0 \<le> guessPos a ts" "guessPos a ts < int (length (Chunks a))"
      using guessPos_range[OF pos] by (auto simp: numChunksOf_def)
    show ?thesis
      using assms u g scanNewer_sound[OF g] scanOlder_sound[OF g]
      by (auto simp: numChunksOf_def split: if_splits)
  qed
qed

lemma Sync_cases:
  assumes "SyncChunkSaveState a ts = Inr a'"
  shows "a' = a
       \<or> (\<exists>p. 0 \<le> p \<and> p < numChunksOf a \<and> T0 (Chunks a ! nat p) = ts
             \<and> getChunkByT0 a ts = Inr (Some p)
             \<and> a' = a\<lparr>Chunks := (Chunks a)[nat p := (Chunks a ! nat p)\<lparr>Saved := True\<rparr>]\<rparr>)"
  using assms getChunkByT0_sound[of a ts]
  by (auto simp: SyncChunkSaveState_def split: sum.splits option.splits)

lemma GC_cases:
  assumes "GC env a chunkMinTs metricMinTs = Inr (b, a')"
  shows "a' = a \<or> persist env a (CurrentChunkPos a) = Inr a'"
  using assms by (auto simp: GC_def split: option.splits if_splits sum.splits)

section \<open>Slots in bounds\<close>

lemma slotsOK_cong:
  assumes "length (Chunks a') = length (Chunks a)" "CurrentChunkPos a' = CurrentChunkPos a"
    "NumChunks a' = NumChunks a"
  shows "slotsOK a' = slotsOK a"
  using assms by (auto simp: slotsOK_def numChunksOf_def)

lemma slotsOK_current:
  "slotsOK a \<Longrightarrow> getChunk a (CurrentChunkPos a) = None \<longleftrightarrow> Chunks a = []"
  by (auto simp: slotsOK_def getChunk_def numChunksOf_def)

lemma slotsOK_persist:
  "persist env a pos = Inr a' \<Longrightarrow> slotsOK a' = slotsOK a"
  using persist_frame[of env a pos a'] slotsOK_cong[of a' a] by blast

lemma Add_elim [consumes 1, case_names first same reject append overwrite]:
  assumes add: "Add env a ctr ts val = Inr (a', ctr')"
  obtains
    (first) "ChunkSpan a \<noteq> 0" "getChunk a (CurrentChunkPos a) = None"
        "a' = addAggregators (a\<lparr>firstChunkT0 := ts - ts mod ChunkSpan a,
                 Chunks := (Chunks a @ [NewChunk (ts - ts mod ChunkSpan a)])
                   [0 := pushed env ((Chunks a @ [NewChunk (ts - ts mod ChunkSpan a)]) ! 0) ts val]\<rparr>) ts val"
  | (same) c where "ChunkSpan a \<noteq> 0" "getChunk a (CurrentChunkPos a) = Some c"
        "ts - ts mod ChunkSpan a = T0 c" "\<not> Saved c"
        "a' = addAggregators (a\<lparr>Chunks := (Chunks a)[nat (CurrentChunkPos a) := pushed env c ts val]\<rparr>) ts val"
  | (reject) "a' = a" "ctr' = ctr"
  | (append) c a1 where "ChunkSpan a \<noteq> 0" "getChunk a (CurrentChunkPos a) = Some c"
        "T0 c < ts - ts mod ChunkSpan a"
        "persist env a (CurrentChunkPos a) = Inr a1"
        "numChunksOf a1 < uint (NumChunks a1)"
        "a' = addAggregators (a1\<lparr>CurrentChunkPos := incWrap (uint (NumChunks a1)) (CurrentChunkPos a1),
                   Chunks := (Chunks a1 @ [NewChunk (ts - ts mod ChunkSpan a)])
                     [nat (incWrap (uint (NumChunks a1)) (CurrentChunkPos a1)) :=
                        pushed env ((Chunks a1 @ [NewChunk (ts - ts mod ChunkSpan a)]) ! nat (incWrap (uint (NumChunks a1)) (CurrentChunkPos a1))) ts val]\<rparr>) ts val"
  | (overwrite) c a1 where "ChunkSpan a \<noteq> 0" "getChunk a (CurrentChunkPos a) = Some c"
        "T0 c < ts - ts mod ChunkSpan a"
        "persist env a (CurrentChunkPos a) = Inr a1"
        "\<not> numChunksOf a1 < uint (NumChunks a1)"
        "a' = addAggregators (a1\<lparr>CurrentChunkPos := incWrap (uint (NumChunks a1)) (CurrentChunkPos a1),
                   Chunks := (Chunks a1)
                     [nat (incWrap (uint (NumChunks a1)) (CurrentChunkPos a1)) :=
                        pushed env (NewChunk (ts - ts mod ChunkSpan a)) ts val]\<rparr>) ts val"
  using Add_cases[OF add]
  apply (elim conjE disjE exE)
      apply (rule first; assumption)
     apply (rule same; assumption)
    apply (rule reject; assumption)
   apply (rule append; assumption)
  apply (rule overwrite; assumption)
  done

lemma slotsOK_Add:
  assumes ok: "slotsOK a" and add: "Add env a ctr ts val = Inr (a', ctr')"
  shows "slotsOK a' \<and> NumChunks a' = NumChunks a"
proof -
  let ?t0 = "ts - ts mod ChunkSpan a"
  from add show ?thesis
  proof (cases rule: Add_elim)
    case first
    then have "Chunks a = []" using slotsOK_current[OF ok] by simp
    then show ?thesis using first ok
      by (auto simp: slotsOK_def numChunksOf_def addAggregators_def)
  next
    case (same c)
    then show ?thesis using ok by (auto simp: slotsOK_def numChunksOf_def addAggregators_def)
  next
    case reject
    then show ?thesis using ok by simp
  next
    case (append c a1)
    have ok1: "slotsOK a1" using slotsOK_persist[OF append(4)] ok by simp
    have pos: "0 \<le> CurrentChunkPos a" "CurrentChunkPos a < numChunksOf a"
      using append(2) by (auto simp: getChunk_Some)
    note fr = persist_frame[OF append(4)]
    have pos1: "0 \<le> CurrentChunkPos a1" "CurrentChunkPos a1 < numChunksOf a1"
      using pos fr by (auto simp: numChunksOf_def)
    show ?thesis using append(5,6) ok1 pos1 fr
      by (auto simp: slotsOK_def numChunksOf_def addAggregators_def incWrap_def)
  next
    case (overwrite c a1)
    have ok1: "slotsOK a1" using slotsOK_persist[OF overwrite(4)] ok by simp
    have pos: "0 \<le> CurrentChunkPos a" "CurrentChunkPos a < numChunksOf a"
      using overwrite(2) by (auto simp: getChunk_Some)
    note fr = persist_frame[OF overwrite(4)]
    have pos1: "0 \<le> CurrentChunkPos a1" "CurrentChunkPos a1 < numChunksOf a1"
      using pos fr by (auto simp: numChunksOf_def)
    show ?thesis using overwrite(5,6) ok1 pos1 fr
      by (auto simp: slotsOK_def numChunksOf_def addAggregators_def incWrap_def)
  qed
qed

lemma slotsOK_GC:
  assumes ok: "slotsOK a" and gc: "GC env a chunkMinTs metricMinTs = Inr (b, a')"
  shows "slotsOK a' \<and> NumChunks a' = NumChunks a"
  using GC_cases[OF gc] ok slotsOK_persist[of env a "CurrentChunkPos a" a']
    persist_frame[of env a "CurrentChunkPos a" a'] by auto

lemma slotsOK_Sync:
  assumes ok: "slotsOK a" and sy: "SyncChunkSaveState a ts = Inr a'"
  shows "slotsOK a' \<and> NumChunks a' = NumChunks a"
  using Sync_cases[OF sy] ok by (auto simp: slotsOK_def numChunksOf_def)

lemma slotsOK_step:
  assumes "step a a'" "slotsOK a"
  shows "slotsOK a' \<and> NumChunks a' = NumChunks a"
  using assms
proof (induction rule: step.induct)
  case (step_Add env a ctr ts val a' ctr')
  show ?case by (rule slotsOK_Add[OF step_Add(2) step_Add(1)])
next
  case (step_GC env a chunkMinTs metricMinTs b a')
  show ?case by (rule slotsOK_GC[OF step_GC(2) step_GC(1)])
next
  case (step_Sync a ts a')
  show ?case by (rule slotsOK_Sync[OF step_Sync(2) step_Sync(1)])
qed

lemma slotsOK_steps:
  "rtranclp step a a' \<Longrightarrow> slotsOK a \<Longrightarrow> slotsOK a' \<and> NumChunks a' = NumChunks a"
proof (induction rule: rtranclp_induct)
  case base
  then show ?case by simp
next
  case (step y z)
  then have "slotsOK y" "NumChunks y = NumChunks a" by auto
  then show ?case using slotsOK_step[OF step(2)] by auto
qed

lemma slotsOK_New: "slotsOK (NewAggMetric k chunkSpan numChunks t aggs)"
  by (simp add: slotsOK_def NewAggMetric_def numChunksOf_def)

lemma Add_zeroCap:
  "Add (primaryEnv 1000) zeroCap noCounts 100 1 = Inr (zeroCap_added, noCounts\<lparr>chunkCreate := 1\<rparr>)"
  by (simp add: zeroCap_def zeroCap_added_def onePoint_def primaryEnv_def noCounts_def
      NewAggMetric_def Add_def pushAt_def Push_def NewChunk_def addAggregators_def getChunk_def
      numChunksOf_def)

section \<open>Lookup of a chunk by its T0\<close>

lemma fwdDist_inj:
  "0 \<le> p \<Longrightarrow> p < n \<Longrightarrow> 0 \<le> q \<Longrightarrow> q < n \<Longrightarrow> 0 \<le> c \<Longrightarrow> c < n \<Longrightarrow>
   fwdDist n p c = fwdDist n q c \<Longrightarrow> p = q"
  by (auto simp: fwdDist_def split: if_splits)




lemma ring_older_less:
  assumes asc: "ringAscending a" and cur: "currentInRange a"
    and q: "0 \<le> q" "q < numChunksOf a"
  shows "0 \<le> p \<Longrightarrow> p < numChunksOf a \<Longrightarrow> fwdDist (numChunksOf a) p (CurrentChunkPos a) = d \<Longrightarrow>
         fwdDist (numChunksOf a) q (CurrentChunkPos a) < d \<Longrightarrow>
         T0 (Chunks a ! nat p) < T0 (Chunks a ! nat q)"
proof (induction d arbitrary: p)
  case 0
  then show ?case by simp
next
  case (Suc d)
  let ?n = "numChunksOf a"
  let ?c = "CurrentChunkPos a"
  have c: "0 \<le> ?c" "?c < ?n" using cur by (auto simp: currentInRange_def)
  have ne: "p \<noteq> ?c" using Suc.prems(3) by (auto simp: fwdDist_self)
  have "fwdDist ?n p ?c = Suc (fwdDist ?n (incWrap ?n p) ?c)"
    using fwdDist_incWrap[OF Suc.prems(1,2) c ne] .
  then have d: "fwdDist ?n (incWrap ?n p) ?c = d" using Suc.prems(3) by simp
  have r: "0 \<le> incWrap ?n p" "incWrap ?n p < ?n" using incWrap_range[OF Suc.prems(1,2)] by auto
  have lt: "T0 (Chunks a ! nat p) < T0 (Chunks a ! nat (incWrap ?n p))"
    using ringAscending_step[OF asc Suc.prems(1,2) ne] .
  show ?case
  proof (cases "fwdDist ?n q ?c = d")
    case True
    then have "incWrap ?n p = q" using fwdDist_inj[OF r q c] d by simp
    then show ?thesis using lt by simp
  next
    case False
    then have "fwdDist ?n q ?c < d" using Suc.prems(4) by simp
    from Suc.IH[OF r d this] lt show ?thesis by simp
  qed
qed

lemma ring_T0_inj:
  assumes asc: "ringAscending a" and cur: "currentInRange a"
    and p: "0 \<le> p" "p < numChunksOf a" and q: "0 \<le> q" "q < numChunksOf a"
    and eq: "T0 (Chunks a ! nat p) = T0 (Chunks a ! nat q)"
  shows "p = q"
proof (rule ccontr)
  assume ne: "p \<noteq> q"
  let ?n = "numChunksOf a"
  let ?c = "CurrentChunkPos a"
  have c: "0 \<le> ?c" "?c < ?n" using cur by (auto simp: currentInRange_def)
  have "fwdDist ?n p ?c \<noteq> fwdDist ?n q ?c" using fwdDist_inj[OF p q c] ne by blast
  then consider "fwdDist ?n q ?c < fwdDist ?n p ?c" | "fwdDist ?n p ?c < fwdDist ?n q ?c"
    by linarith
  then show False
  proof cases
    case 1
    from ring_older_less[OF asc cur q p refl 1] eq show False by simp
  next
    case 2
    from ring_older_less[OF asc cur p q refl 2] eq show False by simp
  qed
qed


















section \<open>The ring invariant\<close>



















section \<open>Claims\<close>

text \<open>
  C1. The claim: with the role oracle reporting "not primary", \<open>Get\<close> never emits an iterator
  over the chunk whose \<open>T0\<close> equals \<open>firstChunkT0\<close>; with \<open>chunk_span = 60\<close>,
  \<open>num_chunks = 3\<close> and a single sample at \<open>ts = 100\<close> on a secondary, \<open>Get(90, 110)\<close>
  returns \<open>(MaxInt32, [])\<close>. The code at that input: the buffer after the single \<open>Add\<close>
  is \<open>oneSample\<close>, whose only chunk is the first chunk; the skip of the oldest chunk
  wraps around to the same slot, and \<open>Get(90, 110)\<close> returns \<open>60\<close> together with an
  iterator over that chunk.
\<close>

theorem C1_secondary_single_chunk_served:
  "Add (secondaryEnv 1000) (NewAggMetric ''k'' 60 3 0 0) noCounts 100 1
     = Inr (oneSample, noCounts\<lparr>chunkCreate := 1\<rparr>)
   \<and> T0 (onePoint 60 100 1 1000) = firstChunkT0 oneSample
   \<and> Get (secondaryEnv 1000) oneSample 90 110 = Inr (60, [chunkIter (onePoint 60 100 1 1000)])
   \<and> Get (secondaryEnv 1000) oneSample 90 110 \<noteq> Inr (MaxInt32, [])"
  by (simp add: oneSample_def onePoint_def secondaryEnv_def noCounts_def NewAggMetric_def
      Add_def pushAt_def Push_def NewChunk_def addAggregators_def
      Get_def oldestServed_def getChunk_def numChunksOf_def incWrap_def decWrap_def
      collectIters_numeral)

text \<open>
  C2. The claim: \<open>GrowNumChunks(n)\<close> with \<open>n\<close> above the old \<open>num_chunks\<close> re-lays a
  full, wrapped ring out oldest to newest and sets \<open>current_pos\<close> to \<open>len - 1\<close>; from
  \<open>[180, 60, 120]\<close> with \<open>current_pos = 0\<close>, \<open>GrowNumChunks(5)\<close> yields \<open>[60, 120, 180]\<close>
  with \<open>current_pos = 2\<close>, and the next add at \<open>ts = 240\<close> appends a chunk at slot 3.
  The code at that input: the length is compared with the cap after the cap has been
  raised, so the ring is left as it is (\<open>[180, 60, 120]\<close>, \<open>current_pos = 0\<close>); the add at
  \<open>ts = 240\<close> then appends the new chunk at slot 3 but moves \<open>current_pos\<close> to 1 and
  pushes the sample into the chunk with \<open>T0 = 60\<close>. Where the re-layout does run (the cap
  not above the length) it starts at \<open>current_pos - 1\<close> and yields \<open>[120, 180, 60]\<close>.
\<close>

theorem C2_grow_keeps_wrapped_layout:
  "GrowNumChunks wrapped3 5 = Inr (wrapped3\<lparr>NumChunks := 5\<rparr>)
   \<and> map T0 (Chunks (wrapped3\<lparr>NumChunks := 5\<rparr>)) = [180, 60, 120]
   \<and> CurrentChunkPos (wrapped3\<lparr>NumChunks := 5\<rparr>) = 0
   \<and> Add (primaryEnv 2000) (wrapped3\<lparr>NumChunks := 5\<rparr>) noCounts 240 4
       = Inr (wrapped3_grown_added, noCounts\<lparr>chunkCreate := 1\<rparr>)
   \<and> map T0 (Chunks wrapped3_grown_added) = [180, 60, 120, 240]
   \<and> CurrentChunkPos wrapped3_grown_added = 1
   \<and> map Points (Chunks wrapped3_grown_added) = [[(190, 3)], [(70, 1), (240, 4)], [(130, 2)], []]
   \<and> GrowNumChunks wrapped3 3
       = Inr (wrapped3\<lparr>Chunks := [sentChunk 120 130 2 1000, onePoint 180 190 3 1000,
                                    sentChunk 60 70 1 1000],
                        CurrentChunkPos := 2\<rparr>)"
  by (simp add: wrapped3_def wrapped3_grown_added_def onePoint_def sentChunk_def primaryEnv_def
      noCounts_def GrowNumChunks_def Add_def getChunk_def numChunksOf_def persist_def Finish_def
      decWrap_def incWrap_def needsSaving_def submitOne_def pushAt_def Push_def NewChunk_def
      addAggregators_def)

text \<open>
  C3. \<open>persist(pos)\<close>, for a slot \<open>pos\<close> of the ring. It finishes the chunk at \<open>pos\<close>.
  When the node is not primary nothing else happens. On a primary there is a number \<open>k\<close>
  of preceding slots (walking backward from \<open>pos\<close> with wrap) such that each of these
  \<open>k\<close> chunks has a smaller \<open>T0\<close> than the chunk at \<open>pos\<close> and is neither saved nor
  being saved, the next chunk backward fails that test (the walk stops there), the store
  receives one request per slot of \<open>pos, pos - 1, \<dots>, pos - k\<close> in the reverse of that
  order (oldest first, all under the key of the metric), \<open>Saving\<close> is set on exactly
  these chunks and nothing else changes. When the ring is in ascending order the \<open>T0\<close>s
  handed to the store in this call are strictly increasing.
\<close>

theorem C3_persist_catch_up:
  fixes env :: "'v Env" and a :: "'v AggMetric" and pos :: int
  assumes pos: "0 \<le> pos" "pos < numChunksOf a"
  defines "cs1 \<equiv> (Chunks a)[nat pos := Finish env (Chunks a ! nat pos)]"
  shows "(\<not> IsPrimary env \<longrightarrow> persist env a pos = Inr (a\<lparr>Chunks := cs1\<rparr>))
       \<and> (IsPrimary env \<longrightarrow>
            (\<exists>k<length (Chunks a).
               (\<forall>p\<in>set (backFrom (numChunksOf a) k (decWrap (numChunksOf a) pos)).
                   T0 (cs1 ! nat p) < T0 (cs1 ! nat pos) \<and> \<not> Saved (cs1 ! nat p)
                   \<and> \<not> Saving (cs1 ! nat p))
             \<and> \<not> (T0 (cs1 ! nat ((decWrap (numChunksOf a) ^^ Suc k) pos)) < T0 (cs1 ! nat pos)
                   \<and> \<not> Saved (cs1 ! nat ((decWrap (numChunksOf a) ^^ Suc k) pos))
                   \<and> \<not> Saving (cs1 ! nat ((decWrap (numChunksOf a) ^^ Suc k) pos)))
             \<and> persist env a pos =
                 Inr (a\<lparr>store := store a @ map (\<lambda>p. writeRequest env a (cs1 ! nat p))
                                              (rev (backFrom (numChunksOf a) (Suc k) pos)),
                        Chunks := markSaving (backFrom (numChunksOf a) (Suc k) pos) cs1\<rparr>)
             \<and> (currentInRange a \<and> ringAscending a \<longrightarrow>
                  sorted_wrt (<) (map (\<lambda>p. T0 (cs1 ! nat p))
                                      (rev (backFrom (numChunksOf a) (Suc k) pos))))))"
proof (intro conjI impI)
  assume "\<not> IsPrimary env"
  then show "persist env a pos = Inr (a\<lparr>Chunks := cs1\<rparr>)"
    using persist_secondary[OF pos] by (simp add: cs1_def)
next
  assume prim: "IsPrimary env"
  let ?n = "numChunksOf a"
  have len: "int (length cs1) = ?n" by (simp add: cs1_def numChunksOf_def)
  from persist_primary[OF pos prim, of ] obtain ps where
    w: "persistWalk (length cs1) cs1 (cs1 ! nat pos) (decWrap (int (length cs1)) pos) = Some ps"
    and p: "persist env a pos =
               Inr (a\<lparr>store := store a @ map (\<lambda>p. writeRequest env a (cs1 ! nat p)) (rev (pos # ps)),
                      Chunks := markSaving (pos # ps) cs1\<rparr>)"
    unfolding cs1_def by blast
  have pos1: "0 \<le> pos" "pos < int (length cs1)" using pos len by auto
  have r: "0 \<le> decWrap (int (length cs1)) pos" "decWrap (int (length cs1)) pos < int (length cs1)"
    using decWrap_range[OF pos1] by auto
  note ch = persistWalk_char[OF pos1 r w]
  let ?k = "length ps"
  have bf: "backFrom ?n ?k (decWrap ?n pos) = ps" using ch len by simp
  then have bf': "backFrom ?n (Suc ?k) pos = pos # ps" by simp
  have "distinct (pos # ps)" using ch by auto
  moreover have "\<forall>x\<in>set (pos # ps). 0 \<le> x \<and> x < int (length (Chunks a))"
    using ch pos1 by (auto simp: cs1_def)
  ultimately have "length (pos # ps) \<le> length (Chunks a)" by (rule distinct_length_le)
  then have k: "?k < length (Chunks a)" by simp
  have c1: "\<forall>p\<in>set (backFrom ?n ?k (decWrap ?n pos)).
              T0 (cs1 ! nat p) < T0 (cs1 ! nat pos) \<and> \<not> Saved (cs1 ! nat p) \<and> \<not> Saving (cs1 ! nat p)"
    unfolding bf using ch by (auto simp: needsSaving_def)
  have stop: "(decWrap ?n ^^ Suc ?k) pos = (decWrap (int (length cs1)) ^^ ?k) (decWrap (int (length cs1)) pos)"
    by (simp add: len funpow_swap1)
  have c2: "\<not> (T0 (cs1 ! nat ((decWrap ?n ^^ Suc ?k) pos)) < T0 (cs1 ! nat pos)
                   \<and> \<not> Saved (cs1 ! nat ((decWrap ?n ^^ Suc ?k) pos))
                   \<and> \<not> Saving (cs1 ! nat ((decWrap ?n ^^ Suc ?k) pos)))"
    unfolding stop using ch by (simp add: needsSaving_def)
  have c3: "persist env a pos =
                 Inr (a\<lparr>store := store a @ map (\<lambda>p. writeRequest env a (cs1 ! nat p))
                                              (rev (backFrom ?n (Suc ?k) pos)),
                        Chunks := markSaving (backFrom ?n (Suc ?k) pos) cs1\<rparr>)"
    unfolding bf' using p .
  have c4: "currentInRange a \<and> ringAscending a \<longrightarrow>
                  sorted_wrt (<) (map (\<lambda>p. T0 (cs1 ! nat p)) (rev (backFrom ?n (Suc ?k) pos)))"
  proof
    assume h: "currentInRange a \<and> ringAscending a"
    have e: "cs1 = (Chunks a)[nat pos := Finish env (Chunks a ! nat pos)]" by (simp add: cs1_def)
    show "sorted_wrt (<) (map (\<lambda>p. T0 (cs1 ! nat p)) (rev (backFrom ?n (Suc ?k) pos)))"
      unfolding bf' using persist_pending_sorted[OF _ _ pos w e] h by blast
  qed
  show "\<exists>k<length (Chunks a).
               (\<forall>p\<in>set (backFrom (numChunksOf a) k (decWrap (numChunksOf a) pos)).
                   T0 (cs1 ! nat p) < T0 (cs1 ! nat pos) \<and> \<not> Saved (cs1 ! nat p)
                   \<and> \<not> Saving (cs1 ! nat p))
             \<and> \<not> (T0 (cs1 ! nat ((decWrap (numChunksOf a) ^^ Suc k) pos)) < T0 (cs1 ! nat pos)
                   \<and> \<not> Saved (cs1 ! nat ((decWrap (numChunksOf a) ^^ Suc k) pos))
                   \<and> \<not> Saving (cs1 ! nat ((decWrap (numChunksOf a) ^^ Suc k) pos)))
             \<and> persist env a pos =
                 Inr (a\<lparr>store := store a @ map (\<lambda>p. writeRequest env a (cs1 ! nat p))
                                              (rev (backFrom (numChunksOf a) (Suc k) pos)),
                        Chunks := markSaving (backFrom (numChunksOf a) (Suc k) pos) cs1\<rparr>)
             \<and> (currentInRange a \<and> ringAscending a \<longrightarrow>
                  sorted_wrt (<) (map (\<lambda>p. T0 (cs1 ! nat p))
                                      (rev (backFrom (numChunksOf a) (Suc k) pos))))"
    using k c1 c2 c3 c4 by blast
qed

text \<open>
  The theorem at \<open>unsaved3\<close>, slot 2, on a primary: the two older chunks are caught up and
  the store receives the chunks 60, 120, 180 in this order.
\<close>

theorem C3_persist_catch_up_witness:
  "0 \<le> (2::int) \<and> 2 < numChunksOf unsaved3 \<and> IsPrimary (primaryEnv 2000)
   \<and> currentInRange unsaved3 \<and> ringAscending unsaved3
   \<and> persist (primaryEnv 2000) unsaved3 2 = Inr unsaved3_persisted
   \<and> map (\<lambda>r. (wr_key r, T0 (wr_chunk r))) (store unsaved3_persisted)
       = [(''k'', 60), (''k'', 120), (''k'', 180)]
   \<and> (\<exists>k<length (Chunks unsaved3).
        persist (primaryEnv 2000) unsaved3 2 =
          Inr (unsaved3\<lparr>store := store unsaved3 @
                  map (\<lambda>p. writeRequest (primaryEnv 2000) unsaved3
                         ((Chunks unsaved3)[nat 2 := Finish (primaryEnv 2000) (Chunks unsaved3 ! nat 2)] ! nat p))
                      (rev (backFrom (numChunksOf unsaved3) (Suc k) 2)),
                Chunks := markSaving (backFrom (numChunksOf unsaved3) (Suc k) 2)
                   ((Chunks unsaved3)[nat 2 := Finish (primaryEnv 2000) (Chunks unsaved3 ! nat 2)])\<rparr>)
        \<and> sorted_wrt (<) (map (\<lambda>p. T0 (((Chunks unsaved3)[nat 2 := Finish (primaryEnv 2000) (Chunks unsaved3 ! nat 2)]) ! nat p))
                             (rev (backFrom (numChunksOf unsaved3) (Suc k) 2))))"
proof -
  have h1: "0 \<le> (2::int)" by simp
  have h2: "2 < numChunksOf unsaved3" by (simp add: numChunksOf_def unsaved3_def)
  have h3: "IsPrimary (primaryEnv 2000)" by (simp add: primaryEnv_def)
  have h4: "currentInRange unsaved3" by (simp add: currentInRange_def numChunksOf_def unsaved3_def)
  have h5: "ringAscending unsaved3" by (rule ringAscending_unsaved3)
  have e: "map (\<lambda>r. (wr_key r, T0 (wr_chunk r))) (store unsaved3_persisted)
       = [(''k'', 60), (''k'', 120), (''k'', 180)]"
    by (simp add: unsaved3_persisted_def unsaved3_def writeRequest_def finishedChunk_def onePoint_def)
  from C3_persist_catch_up[OF h1 h2, of "primaryEnv 2000"] h3 h4 h5
  show ?thesis using h1 h2 persist_unsaved3 e by blast
qed

text \<open>
  C7. \<open>GC(chunkMinTs, metricMinTs)\<close> always returns. It returns true exactly when there is
  a current chunk whose \<open>LastWrite\<close> is below \<open>chunkMinTs\<close>, whose \<open>Saved\<close> flag is set and
  whose \<open>LastWrite\<close> is below \<open>metricMinTs\<close>, and then the state is unchanged. On an empty
  buffer it returns false. When the current chunk is idle but the drop condition does not
  hold, the result is false and the new state is the one \<open>persist\<close> produces for the
  current position: the chunk is finished, the ring is not advanced. When the current
  chunk is not idle the result is false and the state is unchanged.
\<close>

theorem C7_GC_drop_or_persist:
  "((\<exists>a'. GC env a chunkMinTs metricMinTs = Inr (True, a')) \<longleftrightarrow>
      (\<exists>c. getChunk a (CurrentChunkPos a) = Some c \<and> LastWrite c < chunkMinTs \<and> Saved c
           \<and> LastWrite c < metricMinTs))
   \<and> (\<forall>a'. GC env a chunkMinTs metricMinTs = Inr (True, a') \<longrightarrow> a' = a)
   \<and> (Chunks a = [] \<longrightarrow> GC env a chunkMinTs metricMinTs = Inr (False, a))
   \<and> (\<forall>c. getChunk a (CurrentChunkPos a) = Some c \<and> LastWrite c < chunkMinTs
            \<and> \<not> (Saved c \<and> LastWrite c < metricMinTs) \<longrightarrow>
          (\<exists>a'. persist env a (CurrentChunkPos a) = Inr a'
              \<and> GC env a chunkMinTs metricMinTs = Inr (False, a')
              \<and> CurrentChunkPos a' = CurrentChunkPos a
              \<and> length (Chunks a') = length (Chunks a)
              \<and> Finished (Chunks a' ! nat (CurrentChunkPos a))))
   \<and> (\<forall>c. getChunk a (CurrentChunkPos a) = Some c \<and> \<not> LastWrite c < chunkMinTs \<longrightarrow>
          GC env a chunkMinTs metricMinTs = Inr (False, a))
   \<and> (\<exists>b a'. GC env a chunkMinTs metricMinTs = Inr (b, a'))"
proof (cases "getChunk a (CurrentChunkPos a)")
  case None
  then have g: "GC env a chunkMinTs metricMinTs = Inr (False, a)" by (simp add: GC_def)
  show ?thesis using None g by auto
next
  case (Some c)
  then have pos: "0 \<le> CurrentChunkPos a" "CurrentChunkPos a < numChunksOf a"
    by (auto simp: getChunk_Some)
  have ne: "Chunks a \<noteq> []" using Some getChunk_empty by fastforce
  from persist_total[OF pos] obtain a1 where p: "persist env a (CurrentChunkPos a) = Inr a1"
    by blast
  note fr = persist_frame[OF p] persist_finishes[OF p]
  consider (drop) "LastWrite c < chunkMinTs" "Saved c \<and> LastWrite c < metricMinTs"
    | (stale) "LastWrite c < chunkMinTs" "\<not> (Saved c \<and> LastWrite c < metricMinTs)"
    | (fresh) "\<not> LastWrite c < chunkMinTs"
    by blast
  then show ?thesis
  proof cases
    case drop
    then have "GC env a chunkMinTs metricMinTs = Inr (True, a)" using Some by (simp add: GC_def)
    then show ?thesis using Some drop ne by auto
  next
    case stale
    then have "GC env a chunkMinTs metricMinTs = Inr (False, a1)"
      using Some p by (auto simp: GC_def)
    then show ?thesis using Some stale ne p fr by auto
  next
    case fresh
    then have "GC env a chunkMinTs metricMinTs = Inr (False, a)" using Some by (simp add: GC_def)
    then show ?thesis using Some fresh ne by auto
  qed
qed

text \<open>
  The theorem at \<open>oneSample\<close> (last written at 1000) with both thresholds at 1500, on a
  primary at wall-clock time 2000: the chunk is stale and not saved, so it is persisted.
\<close>

theorem C7_GC_drop_or_persist_witness:
  "getChunk oneSample (CurrentChunkPos oneSample) = Some (onePoint 60 100 1 1000)
   \<and> LastWrite (onePoint 60 100 1 1000) < 1500
   \<and> \<not> (Saved (onePoint 60 100 1 1000) \<and> LastWrite (onePoint 60 100 1 1000) < 1500)
   \<and> persist (primaryEnv 2000) oneSample (CurrentChunkPos oneSample) = Inr oneSample_persisted
   \<and> GC (primaryEnv 2000) oneSample 1500 1500 = Inr (False, oneSample_persisted)
   \<and> CurrentChunkPos oneSample_persisted = CurrentChunkPos oneSample
   \<and> length (Chunks oneSample_persisted) = length (Chunks oneSample)
   \<and> Finished (Chunks oneSample_persisted ! nat (CurrentChunkPos oneSample))
   \<and> \<not> (\<exists>a'. GC (primaryEnv 2000) oneSample 1500 1500 = Inr (True, a'))"
proof -
  have h1: "getChunk oneSample (CurrentChunkPos oneSample) = Some (onePoint 60 100 1 1000)"
    by (simp add: getChunk_def numChunksOf_def oneSample_def)
  have h2: "LastWrite (onePoint 60 100 1 1000) < 1500" by (simp add: onePoint_def)
  have h3: "\<not> (Saved (onePoint 60 100 1 1000) \<and> LastWrite (onePoint 60 100 1 1000) < 1500)"
    by (simp add: onePoint_def)
  from C7_GC_drop_or_persist[of "primaryEnv 2000" oneSample 1500 1500] h1 h2 h3
  obtain a' where "persist (primaryEnv 2000) oneSample (CurrentChunkPos oneSample) = Inr a'"
    "GC (primaryEnv 2000) oneSample 1500 1500 = Inr (False, a')"
    "CurrentChunkPos a' = CurrentChunkPos oneSample"
    "length (Chunks a') = length (Chunks oneSample)"
    "Finished (Chunks a' ! nat (CurrentChunkPos oneSample))"
    by blast
  then show ?thesis using h1 h2 h3 GC_oneSample by simp
qed

text \<open>
  C10. On a primary, \<open>persist(pos)\<close> hands the chunk at \<open>pos\<close> to the store whatever its
  \<open>Saving\<close> and \<open>Saved\<close> flags are: its request is \<open>pending[0]\<close>, submitted last. So a
  \<open>GC\<close> call that finds the current chunk idle and does not drop the metric appends a
  request for \<open>(Key, T0)\<close> of the current chunk, and a further such call (the chunk now
  marked \<open>Saving\<close>, last written when the first call finished it) appends one more
  request for the same \<open>(Key, T0)\<close>, and nothing else.
\<close>

theorem C10_persist_resubmits_current:
  "(\<forall>pos. 0 \<le> pos \<and> pos < numChunksOf a \<and> IsPrimary env \<longrightarrow>
      (\<exists>a' older. persist env a pos = Inr a'
         \<and> store a' = store a @ older @ [writeRequest env a (Finish env (Chunks a ! nat pos))]))
   \<and> (\<forall>c. IsPrimary env \<and> getChunk a (CurrentChunkPos a) = Some c \<and> LastWrite c < chunkMinTs
           \<and> \<not> (Saved c \<and> LastWrite c < metricMinTs) \<longrightarrow>
        (\<exists>a1 older. GC env a chunkMinTs metricMinTs = Inr (False, a1)
           \<and> store a1 = store a @ older @ [writeRequest env a (Finish env c)]
           \<and> (\<forall>r\<in>set older. T0 (wr_chunk r) < T0 c)
           \<and> (\<forall>env2 chunkMinTs2 metricMinTs2.
                 IsPrimary env2 \<and> Now env < chunkMinTs2 \<and> \<not> (Saved c \<and> Now env < metricMinTs2) \<longrightarrow>
                 (\<exists>a2 r2. GC env2 a1 chunkMinTs2 metricMinTs2 = Inr (False, a2)
                    \<and> store a2 = store a1 @ [r2]
                    \<and> wr_key r2 = Key a \<and> T0 (wr_chunk r2) = T0 c \<and> Saving (wr_chunk r2)))))"
proof (intro conjI allI impI)
  fix pos assume "0 \<le> pos \<and> pos < numChunksOf a \<and> IsPrimary env"
  then show "\<exists>a' older. persist env a pos = Inr a'
         \<and> store a' = store a @ older @ [writeRequest env a (Finish env (Chunks a ! nat pos))]"
    using persist_primary_last[of pos a env] by blast
next
  fix c
  assume h: "IsPrimary env \<and> getChunk a (CurrentChunkPos a) = Some c \<and> LastWrite c < chunkMinTs
           \<and> \<not> (Saved c \<and> LastWrite c < metricMinTs)"
  let ?cur = "CurrentChunkPos a"
  have pos: "0 \<le> ?cur" "?cur < numChunksOf a" and c: "c = Chunks a ! nat ?cur"
    using h by (auto simp: getChunk_Some)
  have prim: "IsPrimary env" using h by simp
  from persist_primary_last[OF pos prim] obtain a1 older where
    p: "persist env a ?cur = Inr a1"
    and s: "store a1 = store a @ older @ [writeRequest env a (Finish env c)]"
    and o: "\<forall>r\<in>set older. T0 (wr_chunk r) < T0 c"
    using c by blast
  have g: "GC env a chunkMinTs metricMinTs = Inr (False, a1)"
    using h p by (auto simp: GC_def)
  note fr = persist_frame[OF p]
  have c1: "Chunks a1 ! nat ?cur = (Finish env c)\<lparr>Saving := True\<rparr>"
    using persist_primary_current[OF pos prim p] c by simp
  have g1: "getChunk a1 (CurrentChunkPos a1) = Some ((Finish env c)\<lparr>Saving := True\<rparr>)"
    using fr pos c1 by (simp add: getChunk_def numChunksOf_def)
  have again: "\<forall>env2 chunkMinTs2 metricMinTs2.
                 IsPrimary env2 \<and> Now env < chunkMinTs2 \<and> \<not> (Saved c \<and> Now env < metricMinTs2) \<longrightarrow>
                 (\<exists>a2 r2. GC env2 a1 chunkMinTs2 metricMinTs2 = Inr (False, a2)
                    \<and> store a2 = store a1 @ [r2]
                    \<and> wr_key r2 = Key a \<and> T0 (wr_chunk r2) = T0 c \<and> Saving (wr_chunk r2))"
  proof (intro allI impI)
    fix env2 :: "'a Env" and chunkMinTs2 metricMinTs2
    assume h2: "IsPrimary env2 \<and> Now env < chunkMinTs2 \<and> \<not> (Saved c \<and> Now env < metricMinTs2)"
    let ?r2 = "writeRequest env2 a1 (Finish env2 (Chunks a1 ! nat ?cur))"
    let ?a2 = "a1\<lparr>store := store a1 @ [?r2],
                   Chunks := markSaving [?cur] ((Chunks a1)[nat ?cur := Finish env2 (Chunks a1 ! nat ?cur)])\<rparr>"
    have p2: "persist env2 a1 ?cur = Inr ?a2"
      using persist_primary_again[OF pos prim _ p] h2 by blast
    have "GC env2 a1 chunkMinTs2 metricMinTs2 = Inr (False, ?a2)"
      using g1 h2 p2 fr by (auto simp: GC_def Finish_def)
    moreover have "store ?a2 = store a1 @ [?r2]" by simp
    moreover have "wr_key ?r2 = Key a \<and> T0 (wr_chunk ?r2) = T0 c \<and> Saving (wr_chunk ?r2)"
      using fr c1 by (simp add: writeRequest_def Finish_def)
    ultimately show "\<exists>a2 r2. GC env2 a1 chunkMinTs2 metricMinTs2 = Inr (False, a2)
                    \<and> store a2 = store a1 @ [r2]
                    \<and> wr_key r2 = Key a \<and> T0 (wr_chunk r2) = T0 c \<and> Saving (wr_chunk r2)"
      by blast
  qed
  show "\<exists>a1 older. GC env a chunkMinTs metricMinTs = Inr (False, a1)
           \<and> store a1 = store a @ older @ [writeRequest env a (Finish env c)]
           \<and> (\<forall>r\<in>set older. T0 (wr_chunk r) < T0 c)
           \<and> (\<forall>env2 chunkMinTs2 metricMinTs2.
                 IsPrimary env2 \<and> Now env < chunkMinTs2 \<and> \<not> (Saved c \<and> Now env < metricMinTs2) \<longrightarrow>
                 (\<exists>a2 r2. GC env2 a1 chunkMinTs2 metricMinTs2 = Inr (False, a2)
                    \<and> store a2 = store a1 @ [r2]
                    \<and> wr_key r2 = Key a \<and> T0 (wr_chunk r2) = T0 c \<and> Saving (wr_chunk r2)))"
    using g s o again by blast
qed

text \<open>
  The theorem at \<open>oneSample\<close>: two \<open>GC\<close> calls, at wall-clock times 2000 and 3000, leave
  two requests for \<open>(''k'', 60)\<close> in the store.
\<close>

theorem C10_persist_resubmits_current_witness:
  "IsPrimary (primaryEnv 2000) \<and> IsPrimary (primaryEnv 3000)
   \<and> getChunk oneSample (CurrentChunkPos oneSample) = Some (onePoint 60 100 1 1000)
   \<and> LastWrite (onePoint 60 100 1 1000) < 1500
   \<and> \<not> (Saved (onePoint 60 100 1 1000) \<and> LastWrite (onePoint 60 100 1 1000) < 1500)
   \<and> Now (primaryEnv 2000) < 2500
   \<and> \<not> (Saved (onePoint 60 100 1 1000) \<and> Now (primaryEnv 2000) < 2500)
   \<and> GC (primaryEnv 2000) oneSample 1500 1500 = Inr (False, oneSample_persisted)
   \<and> GC (primaryEnv 3000) oneSample_persisted 2500 2500 = Inr (False, oneSample_persisted_twice)
   \<and> map (\<lambda>r. (wr_key r, T0 (wr_chunk r))) (store oneSample_persisted_twice)
        = [(''k'', 60), (''k'', 60)]
   \<and> (\<exists>a2 r2. GC (primaryEnv 3000) oneSample_persisted 2500 2500 = Inr (False, a2)
         \<and> store a2 = store oneSample_persisted @ [r2] \<and> wr_key r2 = Key oneSample
         \<and> T0 (wr_chunk r2) = T0 (onePoint 60 100 1 1000) \<and> Saving (wr_chunk r2))"
proof -
  have h0: "IsPrimary (primaryEnv 2000)" "IsPrimary (primaryEnv 3000)" by (simp_all add: primaryEnv_def)
  have h1: "getChunk oneSample (CurrentChunkPos oneSample) = Some (onePoint 60 100 1 1000)"
    by (simp add: getChunk_def numChunksOf_def oneSample_def)
  have h2: "LastWrite (onePoint 60 100 1 1000) < 1500" by (simp add: onePoint_def)
  have h3: "\<not> (Saved (onePoint 60 100 1 1000) \<and> LastWrite (onePoint 60 100 1 1000) < 1500)"
    by (simp add: onePoint_def)
  have h4: "Now (primaryEnv 2000) < 2500" by (simp add: primaryEnv_def)
  have h5: "\<not> (Saved (onePoint 60 100 1 1000) \<and> Now (primaryEnv 2000) < 2500)"
    by (simp add: onePoint_def)
  have e: "map (\<lambda>r. (wr_key r, T0 (wr_chunk r))) (store oneSample_persisted_twice)
        = [(''k'', 60), (''k'', 60)]"
    by (simp add: oneSample_persisted_twice_def oneSample_def writeRequest_def finishedChunk_def
        sentChunk_def onePoint_def)
  from C10_persist_resubmits_current[of oneSample "primaryEnv 2000" 1500 1500] h0 h1 h2 h3
  obtain a1 where g: "GC (primaryEnv 2000) oneSample 1500 1500 = Inr (False, a1)"
    and again: "\<forall>env2 chunkMinTs2 metricMinTs2.
                 IsPrimary env2 \<and> Now (primaryEnv 2000) < chunkMinTs2
                 \<and> \<not> (Saved (onePoint 60 100 1 1000) \<and> Now (primaryEnv 2000) < metricMinTs2) \<longrightarrow>
                 (\<exists>a2 r2. GC env2 a1 chunkMinTs2 metricMinTs2 = Inr (False, a2)
                    \<and> store a2 = store a1 @ [r2]
                    \<and> wr_key r2 = Key oneSample \<and> T0 (wr_chunk r2) = T0 (onePoint 60 100 1 1000)
                    \<and> Saving (wr_chunk r2))"
    by blast
  have a1: "a1 = oneSample_persisted" using g GC_oneSample by simp
  from again[rule_format, of "primaryEnv 3000" 2500 2500] h0 h4 h5 a1
  have "\<exists>a2 r2. GC (primaryEnv 3000) oneSample_persisted 2500 2500 = Inr (False, a2)
         \<and> store a2 = store oneSample_persisted @ [r2] \<and> wr_key r2 = Key oneSample
         \<and> T0 (wr_chunk r2) = T0 (onePoint 60 100 1 1000) \<and> Saving (wr_chunk r2)"
    by simp
  then show ?thesis using h0 h1 h2 h3 h4 h5 e GC_oneSample GC_oneSample_again by simp
qed

text \<open>
  C4 (amended). For a buffer with a current chunk \<open>c\<close> and a non-zero \<open>ChunkSpan\<close>, and
  \<open>t0 = ts - ts mod ChunkSpan\<close>: \<open>Add(ts, val)\<close> returns with the whole state and the
  counters unchanged (so no chunk, position, flag or aggregator changes) exactly when
  \<open>t0 < T0 c\<close>, or \<open>t0 = T0 c\<close> and \<open>c\<close> is saved, or \<open>t0 = T0 c\<close> and the push into \<open>c\<close>
  returns an error. After \<open>SyncChunkSaveState(T0 c)\<close> the current chunk is \<open>c\<close> with \<open>Saved\<close>
  set, and an \<open>Add\<close> with the same \<open>t0\<close> then leaves everything (the number of points
  included) as it was.
\<close>

theorem C4_Add_rejects:
  assumes span: "ChunkSpan a \<noteq> 0" and cur: "getChunk a (CurrentChunkPos a) = Some c"
  shows "(Add env a ctr ts val = Inr (a, ctr) \<longleftrightarrow>
            ts - ts mod ChunkSpan a < T0 c
          \<or> (ts - ts mod ChunkSpan a = T0 c \<and> (Saved c \<or> PushErr env c ts val)))
       \<and> (\<exists>a'. SyncChunkSaveState a (T0 c) = Inr a'
              \<and> getChunk a' (CurrentChunkPos a') = Some (c\<lparr>Saved := True\<rparr>)
              \<and> (ts - ts mod ChunkSpan a = T0 c \<longrightarrow> Add env a' ctr ts val = Inr (a', ctr)))"
proof
  show "Add env a ctr ts val = Inr (a, ctr) \<longleftrightarrow>
            ts - ts mod ChunkSpan a < T0 c
          \<or> (ts - ts mod ChunkSpan a = T0 c \<and> (Saved c \<or> PushErr env c ts val))"
    using Add_reject_iff[OF span cur] .
next
  let ?a' = "a\<lparr>Chunks := (Chunks a)[nat (CurrentChunkPos a) := c\<lparr>Saved := True\<rparr>]\<rparr>"
  have pos: "0 \<le> CurrentChunkPos a" "CurrentChunkPos a < numChunksOf a"
    using cur by (auto simp: getChunk_Some)
  have s: "SyncChunkSaveState a (T0 c) = Inr ?a'" using Sync_current[OF cur] .
  have g: "getChunk ?a' (CurrentChunkPos ?a') = Some (c\<lparr>Saved := True\<rparr>)"
    using pos by (simp add: getChunk_def numChunksOf_def)
  have span': "ChunkSpan ?a' \<noteq> 0" using span by simp
  have "ts - ts mod ChunkSpan a = T0 c \<longrightarrow> Add env ?a' ctr ts val = Inr (?a', ctr)"
    using Add_reject_iff[OF span' g, of env ctr ts val] by simp
  then show "\<exists>a'. SyncChunkSaveState a (T0 c) = Inr a'
              \<and> getChunk a' (CurrentChunkPos a') = Some (c\<lparr>Saved := True\<rparr>)
              \<and> (ts - ts mod ChunkSpan a = T0 c \<longrightarrow> Add env a' ctr ts val = Inr (a', ctr))"
    using s g by blast
qed

text \<open>
  The theorem at \<open>oneSample\<close>: a sample at \<open>ts = 50\<close> goes back before the current chunk
  and is dropped; after the chunk is marked saved a sample at \<open>ts = 110\<close> is dropped.
\<close>

theorem C4_Add_rejects_witness:
  "ChunkSpan oneSample \<noteq> 0
   \<and> getChunk oneSample (CurrentChunkPos oneSample) = Some (onePoint 60 100 1 1000)
   \<and> 50 - 50 mod ChunkSpan oneSample < T0 (onePoint 60 100 1 1000)
   \<and> Add (primaryEnv 2000) oneSample noCounts 50 9 = Inr (oneSample, noCounts)
   \<and> 110 - 110 mod ChunkSpan oneSample = T0 (onePoint 60 100 1 1000)
   \<and> (\<exists>a'. SyncChunkSaveState oneSample (T0 (onePoint 60 100 1 1000)) = Inr a'
          \<and> getChunk a' (CurrentChunkPos a') = Some ((onePoint 60 100 1 1000)\<lparr>Saved := True\<rparr>)
          \<and> Add (primaryEnv 2000) a' noCounts 110 9 = Inr (a', noCounts))"
proof -
  have h1: "ChunkSpan oneSample \<noteq> 0" by (simp add: oneSample_def)
  have h2: "getChunk oneSample (CurrentChunkPos oneSample) = Some (onePoint 60 100 1 1000)"
    by (rule oneSample_current)
  have h3: "50 - 50 mod ChunkSpan oneSample < T0 (onePoint 60 100 1 1000)"
    by (simp add: oneSample_def onePoint_def)
  have h4: "110 - 110 mod ChunkSpan oneSample = T0 (onePoint 60 100 1 1000)"
    by (simp add: oneSample_def onePoint_def)
  have r1: "Add (primaryEnv 2000) oneSample noCounts 50 9 = Inr (oneSample, noCounts)"
    using C4_Add_rejects[OF h1 h2, of "primaryEnv 2000" noCounts 50 9] h3 by blast
  have r2: "\<exists>a'. SyncChunkSaveState oneSample (T0 (onePoint 60 100 1 1000)) = Inr a'
          \<and> getChunk a' (CurrentChunkPos a') = Some ((onePoint 60 100 1 1000)\<lparr>Saved := True\<rparr>)
          \<and> Add (primaryEnv 2000) a' noCounts 110 9 = Inr (a', noCounts)"
    using C4_Add_rejects[OF h1 h2, of "primaryEnv 2000" noCounts 110 9] h4 by blast
  show ?thesis using h1 h2 h3 h4 r1 r2 by blast
qed

text \<open>
  C4 as stated names two cases only. At \<open>oneSample\<close> with a push that refuses a timestamp
  not above \<open>LastTs\<close>, the sample \<open>(100, 5)\<close> has the \<open>t0\<close> of the current chunk, the chunk
  is not saved, and \<open>Add\<close> still leaves the state and the counters unchanged.
\<close>

theorem C4_Add_rejects_counterexample:
  "ChunkSpan oneSample \<noteq> 0
   \<and> getChunk oneSample (CurrentChunkPos oneSample) = Some (onePoint 60 100 1 1000)
   \<and> Add rejectingEnv oneSample noCounts 100 5 = Inr (oneSample, noCounts)
   \<and> \<not> (100 - 100 mod ChunkSpan oneSample < T0 (onePoint 60 100 1 1000))
   \<and> \<not> (100 - 100 mod ChunkSpan oneSample = T0 (onePoint 60 100 1 1000)
          \<and> Saved (onePoint 60 100 1 1000))"
  by (simp add: oneSample_def onePoint_def noCounts_def rejectingEnv_def Add_def getChunk_def
      numChunksOf_def pushAt_def Push_def)

text \<open>
  C5. For \<open>from < to\<close>, \<open>Get(from, to)\<close> returns an empty iterator list in these cases and
  in no other. The buffer is empty (no current chunk): \<open>MaxInt32\<close>. The query starts at or
  past \<open>T0 + ChunkSpan\<close> of the newest chunk: \<open>MaxInt32\<close>. Otherwise, with \<open>o\<close> the slot after
  the current one (wrap at the length) and \<open>o'\<close> the slot after \<open>o\<close>: on a primary, or when the
  chunk at \<open>o\<close> is not the first chunk ever created, the oldest served chunk is the one at
  \<open>o\<close>, and a query ending at or before its \<open>T0\<close> gets that \<open>T0\<close>; on a secondary whose chunk
  at \<open>o\<close> has \<open>T0 = firstChunkT0\<close>, the oldest served chunk is the one at \<open>o'\<close>, and a query
  ending at or before its \<open>T0\<close> gets that \<open>T0\<close>.
\<close>

theorem C5_Get_no_data:
  assumes ft: "from < to"
  shows "(Chunks a = [] \<longrightarrow> Get env a from to = Inr (MaxInt32, []))
       \<and> (getChunk a (CurrentChunkPos a) = None \<longrightarrow> Get env a from to = Inr (MaxInt32, []))
       \<and> (\<forall>newest. getChunk a (CurrentChunkPos a) = Some newest
              \<and> from \<ge> T0 newest + ChunkSpan a \<longrightarrow> Get env a from to = Inr (MaxInt32, []))
       \<and> (\<forall>newest. getChunk a (CurrentChunkPos a) = Some newest
              \<and> from < T0 newest + ChunkSpan a
              \<and> (IsPrimary env
                   \<or> T0 (Chunks a ! nat (incWrap (numChunksOf a) (CurrentChunkPos a)))
                        \<noteq> firstChunkT0 a)
              \<and> to \<le> T0 (Chunks a ! nat (incWrap (numChunksOf a) (CurrentChunkPos a))) \<longrightarrow>
              Get env a from to
                = Inr (T0 (Chunks a ! nat (incWrap (numChunksOf a) (CurrentChunkPos a))), []))
       \<and> (\<forall>newest. getChunk a (CurrentChunkPos a) = Some newest
              \<and> from < T0 newest + ChunkSpan a
              \<and> \<not> IsPrimary env
              \<and> T0 (Chunks a ! nat (incWrap (numChunksOf a) (CurrentChunkPos a))) = firstChunkT0 a
              \<and> to \<le> T0 (Chunks a ! nat (incWrap (numChunksOf a)
                                               (incWrap (numChunksOf a) (CurrentChunkPos a)))) \<longrightarrow>
              Get env a from to
                = Inr (T0 (Chunks a ! nat (incWrap (numChunksOf a)
                                             (incWrap (numChunksOf a) (CurrentChunkPos a)))), []))
       \<and> (\<forall>m. Get env a from to = Inr (m, []) \<longrightarrow>
              (getChunk a (CurrentChunkPos a) = None \<and> m = MaxInt32)
            \<or> (\<exists>newest. getChunk a (CurrentChunkPos a) = Some newest
                   \<and> from \<ge> T0 newest + ChunkSpan a \<and> m = MaxInt32)
            \<or> (\<exists>newest. getChunk a (CurrentChunkPos a) = Some newest
                   \<and> from < T0 newest + ChunkSpan a
                   \<and> (IsPrimary env
                        \<or> T0 (Chunks a ! nat (incWrap (numChunksOf a) (CurrentChunkPos a)))
                             \<noteq> firstChunkT0 a)
                   \<and> to \<le> T0 (Chunks a ! nat (incWrap (numChunksOf a) (CurrentChunkPos a)))
                   \<and> m = T0 (Chunks a ! nat (incWrap (numChunksOf a) (CurrentChunkPos a))))
            \<or> (\<exists>newest. getChunk a (CurrentChunkPos a) = Some newest
                   \<and> from < T0 newest + ChunkSpan a
                   \<and> \<not> IsPrimary env
                   \<and> T0 (Chunks a ! nat (incWrap (numChunksOf a) (CurrentChunkPos a)))
                        = firstChunkT0 a
                   \<and> to \<le> T0 (Chunks a ! nat (incWrap (numChunksOf a)
                                                    (incWrap (numChunksOf a) (CurrentChunkPos a))))
                   \<and> m = T0 (Chunks a ! nat (incWrap (numChunksOf a)
                                                (incWrap (numChunksOf a) (CurrentChunkPos a))))))"
proof -
  let ?o = "incWrap (numChunksOf a) (CurrentChunkPos a)"
  let ?o' = "incWrap (numChunksOf a) ?o"
  have nft: "\<not> to \<le> from" using ft by simp
  have c1: "getChunk a (CurrentChunkPos a) = None \<longrightarrow> Get env a from to = Inr (MaxInt32, [])"
    using nft by (simp add: Get_def)
  have c0: "Chunks a = [] \<longrightarrow> Get env a from to = Inr (MaxInt32, [])"
    using c1 getChunk_empty[of a "CurrentChunkPos a"] by auto
  have c2: "\<forall>newest. getChunk a (CurrentChunkPos a) = Some newest
              \<and> from \<ge> T0 newest + ChunkSpan a \<longrightarrow> Get env a from to = Inr (MaxInt32, [])"
    using nft by (simp add: Get_def)
  have c3: "\<forall>newest. getChunk a (CurrentChunkPos a) = Some newest
              \<and> from < T0 newest + ChunkSpan a
              \<and> (IsPrimary env \<or> T0 (Chunks a ! nat ?o) \<noteq> firstChunkT0 a)
              \<and> to \<le> T0 (Chunks a ! nat ?o) \<longrightarrow>
              Get env a from to = Inr (T0 (Chunks a ! nat ?o), [])"
  proof (intro allI impI)
    fix newest
    assume h: "getChunk a (CurrentChunkPos a) = Some newest
              \<and> from < T0 newest + ChunkSpan a
              \<and> (IsPrimary env \<or> T0 (Chunks a ! nat ?o) \<noteq> firstChunkT0 a)
              \<and> to \<le> T0 (Chunks a ! nat ?o)"
    then have "oldestServed env a = Some (?o, Some (Chunks a ! nat ?o))"
      using oldestServed_explicit[of a newest env] by auto
    then show "Get env a from to = Inr (T0 (Chunks a ! nat ?o), [])"
      using h nft by (auto simp: Get_def)
  qed
  have c4: "\<forall>newest. getChunk a (CurrentChunkPos a) = Some newest
              \<and> from < T0 newest + ChunkSpan a
              \<and> \<not> IsPrimary env \<and> T0 (Chunks a ! nat ?o) = firstChunkT0 a
              \<and> to \<le> T0 (Chunks a ! nat ?o') \<longrightarrow>
              Get env a from to = Inr (T0 (Chunks a ! nat ?o'), [])"
  proof (intro allI impI)
    fix newest
    assume h: "getChunk a (CurrentChunkPos a) = Some newest
              \<and> from < T0 newest + ChunkSpan a
              \<and> \<not> IsPrimary env \<and> T0 (Chunks a ! nat ?o) = firstChunkT0 a
              \<and> to \<le> T0 (Chunks a ! nat ?o')"
    then have "oldestServed env a = Some (?o', Some (Chunks a ! nat ?o'))"
      using oldestServed_explicit[of a newest env] by auto
    then show "Get env a from to = Inr (T0 (Chunks a ! nat ?o'), [])"
      using h nft by (auto simp: Get_def)
  qed
  have c5: "\<forall>m. Get env a from to = Inr (m, []) \<longrightarrow>
              (getChunk a (CurrentChunkPos a) = None \<and> m = MaxInt32)
            \<or> (\<exists>newest. getChunk a (CurrentChunkPos a) = Some newest
                   \<and> from \<ge> T0 newest + ChunkSpan a \<and> m = MaxInt32)
            \<or> (\<exists>newest. getChunk a (CurrentChunkPos a) = Some newest
                   \<and> from < T0 newest + ChunkSpan a
                   \<and> (IsPrimary env \<or> T0 (Chunks a ! nat ?o) \<noteq> firstChunkT0 a)
                   \<and> to \<le> T0 (Chunks a ! nat ?o) \<and> m = T0 (Chunks a ! nat ?o))
            \<or> (\<exists>newest. getChunk a (CurrentChunkPos a) = Some newest
                   \<and> from < T0 newest + ChunkSpan a
                   \<and> \<not> IsPrimary env \<and> T0 (Chunks a ! nat ?o) = firstChunkT0 a
                   \<and> to \<le> T0 (Chunks a ! nat ?o') \<and> m = T0 (Chunks a ! nat ?o'))"
  proof (intro allI impI)
    fix m assume g: "Get env a from to = Inr (m, [])"
    from Get_empty_result[OF ft g]
    consider (e) "getChunk a (CurrentChunkPos a) = None \<and> m = MaxInt32"
      | (n) "\<exists>newest. getChunk a (CurrentChunkPos a) = Some newest
                   \<and> from \<ge> T0 newest + ChunkSpan a \<and> m = MaxInt32"
      | (o) newest p oldest where "getChunk a (CurrentChunkPos a) = Some newest"
              "from < T0 newest + ChunkSpan a" "oldestServed env a = Some (p, Some oldest)"
              "to \<le> T0 oldest" "m = T0 oldest"
      by blast
    then show "(getChunk a (CurrentChunkPos a) = None \<and> m = MaxInt32)
            \<or> (\<exists>newest. getChunk a (CurrentChunkPos a) = Some newest
                   \<and> from \<ge> T0 newest + ChunkSpan a \<and> m = MaxInt32)
            \<or> (\<exists>newest. getChunk a (CurrentChunkPos a) = Some newest
                   \<and> from < T0 newest + ChunkSpan a
                   \<and> (IsPrimary env \<or> T0 (Chunks a ! nat ?o) \<noteq> firstChunkT0 a)
                   \<and> to \<le> T0 (Chunks a ! nat ?o) \<and> m = T0 (Chunks a ! nat ?o))
            \<or> (\<exists>newest. getChunk a (CurrentChunkPos a) = Some newest
                   \<and> from < T0 newest + ChunkSpan a
                   \<and> \<not> IsPrimary env \<and> T0 (Chunks a ! nat ?o) = firstChunkT0 a
                   \<and> to \<le> T0 (Chunks a ! nat ?o') \<and> m = T0 (Chunks a ! nat ?o'))"
    proof cases
      case e
      then show ?thesis by blast
    next
      case n
      then show ?thesis by blast
    next
      case o
      note ex = oldestServed_explicit[OF o(1), of env]
      show ?thesis
      proof (cases "\<not> IsPrimary env \<and> T0 (Chunks a ! nat ?o) = firstChunkT0 a")
        case True
        then have "oldest = Chunks a ! nat ?o'" using ex o(3) by simp
        then show ?thesis using o True by blast
      next
        case False
        then have "oldest = Chunks a ! nat ?o" using ex o(3) by auto
        then show ?thesis using o False by blast
      qed
    qed
  qed
  show ?thesis using c0 c1 c2 c3 c4 c5 by blast
qed

text \<open>
  The theorem at the ring \<open>[60, 120, 180]\<close> (current slot 2, first chunk \<open>60\<close>). On a primary
  \<open>Get(0, 50)\<close> returns \<open>(60, [])\<close>; on a secondary the chunk \<open>60\<close> is skipped, and both
  \<open>Get(0, 50)\<close> and \<open>Get(0, 100)\<close> return \<open>(120, [])\<close>; \<open>Get(300, 400)\<close> starts after the
  newest chunk and returns \<open>(MaxInt32, [])\<close>.
\<close>

theorem C5_Get_no_data_witness:
  "(0::u32) < 50 \<and> (0::u32) < 100 \<and> (300::u32) < 400
   \<and> getChunk unsaved3 (CurrentChunkPos unsaved3) = Some (onePoint 180 190 3 1000)
   \<and> 0 < T0 (onePoint 180 190 3 1000) + ChunkSpan unsaved3
   \<and> T0 (Chunks unsaved3 ! nat (incWrap (numChunksOf unsaved3) (CurrentChunkPos unsaved3)))
        = firstChunkT0 unsaved3
   \<and> IsPrimary (primaryEnv 2000) \<and> \<not> IsPrimary (secondaryEnv 2000)
   \<and> Get (primaryEnv 2000) unsaved3 0 50 = Inr (60, [])
   \<and> Get (secondaryEnv 2000) unsaved3 0 50 = Inr (120, [])
   \<and> Get (secondaryEnv 2000) unsaved3 0 100 = Inr (120, [])
   \<and> Get (secondaryEnv 2000) unsaved3 300 400 = Inr (MaxInt32, [])"
proof -
  have h1: "(0::u32) < 50" "(0::u32) < 100" "(300::u32) < 400" by simp_all
  have h2: "0 < T0 (onePoint 180 190 3 1000) + ChunkSpan unsaved3"
    by (simp add: onePoint_def unsaved3_def)
  have h3: "T0 (Chunks unsaved3 ! nat (incWrap (numChunksOf unsaved3) (CurrentChunkPos unsaved3)))
        = firstChunkT0 unsaved3"
    using unsaved3_oldest by (simp add: unsaved3_def)
  have h4: "IsPrimary (primaryEnv 2000)" "\<not> IsPrimary (secondaryEnv 2000)"
    by (simp_all add: primaryEnv_def secondaryEnv_def)
  note t0 = unsaved3_oldest
  note t1 = unsaved3_second
  have h5: "300 \<ge> T0 (onePoint 180 190 3 1000) + ChunkSpan unsaved3"
    by (simp add: onePoint_def unsaved3_def)
  have r1: "Get (primaryEnv 2000) unsaved3 0 50 = Inr (60, [])"
    using C5_Get_no_data[OF h1(1), of unsaved3 "primaryEnv 2000"] unsaved3_current h2 h4(1) t0
    by simp
  have r2: "Get (secondaryEnv 2000) unsaved3 0 50 = Inr (120, [])"
    using C5_Get_no_data[OF h1(1), of unsaved3 "secondaryEnv 2000"] unsaved3_current h2 h3 h4(2) t1
    by simp
  have r3: "Get (secondaryEnv 2000) unsaved3 0 100 = Inr (120, [])"
    using C5_Get_no_data[OF h1(2), of unsaved3 "secondaryEnv 2000"] unsaved3_current h2 h3 h4(2) t1
    by simp
  have r4: "Get (secondaryEnv 2000) unsaved3 300 400 = Inr (MaxInt32, [])"
    using C5_Get_no_data[OF h1(3), of unsaved3 "secondaryEnv 2000"] unsaved3_current h5 by blast
  show ?thesis using h1 h2 h3 h4 unsaved3_current r1 r2 r3 r4 by simp
qed

text \<open>
  C9 (amended). \<open>slotsOK\<close> holds of the buffer \<^verbatim>\<open>NewAggMetric\<close> creates; every \<open>Add\<close>, \<open>GC\<close>
  and \<open>SyncChunkSaveState\<close> that returns preserves it and leaves \<open>NumChunks\<close> as it is; in
  a state where it holds and the chunk list is not empty, \<open>0 \<le> CurrentChunkPos < len(Chunks)\<close>
  (the lookup of the current chunk is in bounds), and \<open>len(Chunks) \<le> NumChunks\<close> provided
  \<open>NumChunks \<ge> 1\<close>. So in every state reached from the new buffer by these operations the
  cap is the initial one, the current position is in bounds, and the length is within the
  cap when the cap is at least 1.
\<close>

theorem C9_slots_in_bounds:
  "slotsOK (NewAggMetric k chunkSpan numChunks t aggs)
   \<and> (slotsOK a \<longrightarrow>
        (\<forall>env ctr ts val a' ctr'. Add env a ctr ts val = Inr (a', ctr') \<longrightarrow>
            slotsOK a' \<and> NumChunks a' = NumChunks a)
      \<and> (\<forall>env chunkMinTs metricMinTs b a'. GC env a chunkMinTs metricMinTs = Inr (b, a') \<longrightarrow>
            slotsOK a' \<and> NumChunks a' = NumChunks a)
      \<and> (\<forall>ts a'. SyncChunkSaveState a ts = Inr a' \<longrightarrow>
            slotsOK a' \<and> NumChunks a' = NumChunks a)
      \<and> (Chunks a \<noteq> [] \<longrightarrow> 0 \<le> CurrentChunkPos a \<and> CurrentChunkPos a < numChunksOf a
            \<and> getChunk a (CurrentChunkPos a) = Some (Chunks a ! nat (CurrentChunkPos a)))
      \<and> (Chunks a \<noteq> [] \<and> 1 \<le> uint (NumChunks a) \<longrightarrow> numChunksOf a \<le> uint (NumChunks a)))
   \<and> (rtranclp step (NewAggMetric k chunkSpan numChunks t aggs) a \<longrightarrow>
        NumChunks a = numChunks
      \<and> (Chunks a \<noteq> [] \<longrightarrow> 0 \<le> CurrentChunkPos a \<and> CurrentChunkPos a < numChunksOf a)
      \<and> (Chunks a \<noteq> [] \<and> 1 \<le> uint numChunks \<longrightarrow> numChunksOf a \<le> uint numChunks))"
proof (intro conjI impI)
  show "slotsOK (NewAggMetric k chunkSpan numChunks t aggs)" by (rule slotsOK_New)
next
  assume ok: "slotsOK a"
  show "\<forall>env ctr ts val a' ctr'. Add env a ctr ts val = Inr (a', ctr') \<longrightarrow>
            slotsOK a' \<and> NumChunks a' = NumChunks a"
    using slotsOK_Add[OF ok] by blast
  show "\<forall>env chunkMinTs metricMinTs b a'. GC env a chunkMinTs metricMinTs = Inr (b, a') \<longrightarrow>
            slotsOK a' \<and> NumChunks a' = NumChunks a"
    using slotsOK_GC[OF ok] by blast
  show "\<forall>ts a'. SyncChunkSaveState a ts = Inr a' \<longrightarrow> slotsOK a' \<and> NumChunks a' = NumChunks a"
    using slotsOK_Sync[OF ok] by blast
  {
    assume ne: "Chunks a \<noteq> []"
    then show "0 \<le> CurrentChunkPos a" "CurrentChunkPos a < numChunksOf a"
      using ok by (auto simp: slotsOK_def)
    then show "getChunk a (CurrentChunkPos a) = Some (Chunks a ! nat (CurrentChunkPos a))"
      by (simp add: getChunk_def)
  }
  {
    assume "Chunks a \<noteq> [] \<and> 1 \<le> uint (NumChunks a)"
    then show "numChunksOf a \<le> uint (NumChunks a)" using ok by (auto simp: slotsOK_def)
  }
next
  assume r: "rtranclp step (NewAggMetric k chunkSpan numChunks t aggs) a"
  have ok: "slotsOK a" and n: "NumChunks a = numChunks"
    using slotsOK_steps[OF r slotsOK_New] by (auto simp: NewAggMetric_def)
  show "NumChunks a = numChunks" by (rule n)
  {
    assume "Chunks a \<noteq> []"
    then show "0 \<le> CurrentChunkPos a" "CurrentChunkPos a < numChunksOf a"
      using ok by (auto simp: slotsOK_def)
  }
  {
    assume "Chunks a \<noteq> [] \<and> 1 \<le> uint numChunks"
    then show "numChunksOf a \<le> uint numChunks" using ok n by (auto simp: slotsOK_def)
  }
qed

text \<open>
  C9 as stated puts no lower bound on \<open>NumChunks\<close>. With \<open>NumChunks = 0\<close> the first \<open>Add\<close>
  on the new buffer appends a chunk: the list is not empty and its length 1 exceeds the cap.
\<close>

theorem C9_slots_in_bounds_counterexample:
  "Add (primaryEnv 1000) (NewAggMetric ''k'' 60 0 0 0) noCounts 100 1
     = Inr (zeroCap_added, noCounts\<lparr>chunkCreate := 1\<rparr>)
   \<and> NumChunks zeroCap_added = 0 \<and> Chunks zeroCap_added \<noteq> []
   \<and> \<not> (0 \<le> CurrentChunkPos zeroCap_added
          \<and> CurrentChunkPos zeroCap_added < int (length (Chunks zeroCap_added))
          \<and> int (length (Chunks zeroCap_added)) \<le> uint (NumChunks zeroCap_added))"
  using Add_zeroCap by (simp add: zeroCap_def zeroCap_added_def)

text \<open>
  The theorem at the buffer with \<open>NumChunks = 3\<close> after one \<open>Add\<close>: \<open>oneSample\<close> is reached
  from the new buffer, and its slots are in bounds.
\<close>

theorem C9_slots_in_bounds_witness:
  "slotsOK oneSample
   \<and> Add (primaryEnv 1000) (NewAggMetric ''k'' 60 3 0 0) noCounts 100 1
        = Inr (oneSample, noCounts\<lparr>chunkCreate := 1\<rparr>)
   \<and> rtranclp step (NewAggMetric ''k'' 60 3 0 0) oneSample
   \<and> Chunks oneSample \<noteq> [] \<and> 1 \<le> uint (3::u32)
   \<and> NumChunks oneSample = 3
   \<and> 0 \<le> CurrentChunkPos oneSample \<and> CurrentChunkPos oneSample < numChunksOf oneSample
   \<and> numChunksOf oneSample \<le> uint (3::u32)"
proof -
  have a: "Add (primaryEnv 1000) (NewAggMetric ''k'' 60 3 0 0) noCounts 100 1
        = Inr (oneSample, noCounts\<lparr>chunkCreate := 1\<rparr>)"
    by (simp add: oneSample_def onePoint_def primaryEnv_def noCounts_def NewAggMetric_def
        Add_def pushAt_def Push_def NewChunk_def addAggregators_def getChunk_def numChunksOf_def)
  then have s: "step (NewAggMetric ''k'' 60 3 0 0) oneSample" by (rule step_Add)
  then have r: "rtranclp step (NewAggMetric ''k'' 60 3 0 0) oneSample" by blast
  have ne: "Chunks oneSample \<noteq> []" by (simp add: oneSample_def)
  have n: "1 \<le> uint (3::u32)" by simp
  note t1 = C9_slots_in_bounds[of "''k''" 60 3 0 0 "NewAggMetric ''k'' 60 3 0 0"]
  note t2 = C9_slots_in_bounds[of "''k''" 60 3 0 0 oneSample]
  have ok0: "slotsOK (NewAggMetric ''k'' 60 3 0 0 :: int AggMetric)" using t1 by blast
  have ok: "slotsOK oneSample" using t1 ok0 a by blast
  have b: "NumChunks oneSample = 3
      \<and> (Chunks oneSample \<noteq> [] \<longrightarrow> 0 \<le> CurrentChunkPos oneSample
             \<and> CurrentChunkPos oneSample < numChunksOf oneSample)
      \<and> (Chunks oneSample \<noteq> [] \<and> 1 \<le> uint (3::u32) \<longrightarrow> numChunksOf oneSample \<le> uint (3::u32))"
    using t2 r by blast
  show ?thesis using a r ne n ok b by blast
qed



end
